theory Spec2Isabelle
  imports Main "HOL-Library.Sublist"
begin

section \<open>Strings as the renderer uses them\<close>

text \<open>
  A JavaScript string is modelled as a \<^typ>\<open>string\<close>, one \<^typ>\<open>char\<close> per code unit, read as
  Latin-1. The characters that cannot be written inside a string literal get a name.
\<close>

abbreviation BSLASH :: char where "BSLASH \<equiv> CHR 0x5C"
abbreviation BTICK :: char where "BTICK \<equiv> CHR 0x60"
abbreviation DQUOTE :: char where "DQUOTE \<equiv> CHR 0x22"
abbreviation NEWLINE :: char where "NEWLINE \<equiv> CHR 0x0A"

text \<open>\<open>String.prototype.trim\<close>: white space and line terminators are removed at both ends.\<close>

definition isSpace :: "char \<Rightarrow> bool" where
  "isSpace c = (c \<in> {CHR 0x09, CHR 0x0A, CHR 0x0B, CHR 0x0C, CHR 0x0D, CHR 0x20, CHR 0xA0})"

definition trim :: "string \<Rightarrow> string" where
  "trim s = rev (dropWhile isSpace (rev (dropWhile isSpace s)))"

text \<open>\<open>String.prototype.toLowerCase\<close> on the Latin-1 code units.\<close>

definition lowerChar :: "char \<Rightarrow> char" where
  "lowerChar c =
     (let n = (of_char c :: nat)
      in if (65 \<le> n \<and> n \<le> 90) \<or> (192 \<le> n \<and> n \<le> 222 \<and> n \<noteq> 215)
         then char_of (n + 32) else c)"

definition toLowerCase :: "string \<Rightarrow> string" where
  "toLowerCase s = map lowerChar s"

text \<open>\<open>Array.prototype.join\<close> and \<open>String.prototype.split\<close> with a one-character separator.\<close>

fun join :: "string \<Rightarrow> string list \<Rightarrow> string" where
  "join sep [] = []"
| "join sep [x] = x"
| "join sep (x # y # ys) = x @ sep @ join sep (y # ys)"

fun split :: "char \<Rightarrow> string \<Rightarrow> string list" where
  "split c [] = [[]]"
| "split c (x # xs) =
     (if x = c then [] # split c xs
      else (case split c xs of [] \<Rightarrow> [[x]] | w # ws \<Rightarrow> (x # w) # ws))"

text \<open>Decimal rendering of a number in a template literal, and \<open>parseInt(s, 10)\<close> on digits.\<close>

definition isDigit :: "char \<Rightarrow> bool" where
  "isDigit c = (48 \<le> (of_char c :: nat) \<and> (of_char c :: nat) \<le> 57)"

definition digitChar :: "nat \<Rightarrow> char" where
  "digitChar d = char_of (48 + d)"

function showNat :: "nat \<Rightarrow> string" where
  "showNat n = (if n < 10 then [digitChar n] else showNat (n div 10) @ [digitChar (n mod 10)])"
  by pat_completeness auto
termination
  by (relation "measure id") auto

definition parseInt :: "string \<Rightarrow> nat" where
  "parseInt ds = foldl (\<lambda>acc c. 10 * acc + (of_char c - 48)) 0 ds"

section \<open>Escaping and formatting utilities (utils.ts)\<close>

definition escapeTypstText :: "string \<Rightarrow> string" where
  "escapeTypstText input =
     concat (map (\<lambda>c. if c \<in> set (BSLASH # BTICK # ''#*_[]$<>@'') then [BSLASH, c] else [c]) input)"

definition replaceChar :: "char \<Rightarrow> string \<Rightarrow> string \<Rightarrow> string" where
  "replaceChar c r s = concat (map (\<lambda>x. if x = c then r else [x]) s)"

definition escapeTypstString :: "string \<Rightarrow> string" where
  "escapeTypstString input =
     replaceChar NEWLINE [BSLASH, CHR ''n'']
       (replaceChar DQUOTE [BSLASH, DQUOTE]
         (replaceChar BSLASH [BSLASH, BSLASH] input))"

definition indentLines :: "string \<Rightarrow> nat \<Rightarrow> string" where
  "indentLines text indentLevel =
     (if indentLevel = 0 then text
      else join [NEWLINE]
             (map (\<lambda>line. concat (replicate indentLevel ''  '') @ line) (split NEWLINE text)))"

definition isNonEmpty :: "string option \<Rightarrow> bool" where
  "isNonEmpty v = (case v of None \<Rightarrow> False | Some s \<Rightarrow> length s > 0)"

definition normalizeText :: "string option \<Rightarrow> string" where
  "normalizeText v = trim (case v of None \<Rightarrow> [] | Some s \<Rightarrow> s)"

definition renderTypstArray :: "string list \<Rightarrow> string" where
  "renderTypstArray items =
     (if length items = 1 then ''('' @ hd items @ '',)''
      else ''('' @ join '', '' items @ '')'')"

fun maxBacktickRun_loop :: "string \<Rightarrow> nat \<Rightarrow> nat \<Rightarrow> nat" where
  "maxBacktickRun_loop [] maxRun run = maxRun"
| "maxBacktickRun_loop (c # cs) maxRun run =
     (if c = BTICK
      then (let run' = run + 1
            in maxBacktickRun_loop cs (if run' > maxRun then run' else maxRun) run')
      else maxBacktickRun_loop cs maxRun 0)"

definition maxBacktickRun :: "string \<Rightarrow> nat" where
  "maxBacktickRun v = maxBacktickRun_loop v 0 0"

section \<open>Code blocks (block-renderer)\<close>

text \<open>A \<open>code\<close> node: the optional info string \<open>lang\<close> and the literal \<open>value\<close>.\<close>

record code_node =
  codeLang :: "string option"
  codeValue :: string

text \<open>\<open>value.replace(/\n$/, '')\<close>: one line feed at the very end is removed.\<close>

definition stripFinalNewline :: "string \<Rightarrow> string" where
  "stripFinalNewline v = (if v \<noteq> [] \<and> last v = NEWLINE then butlast v else v)"

definition codeInfo :: "code_node \<Rightarrow> string" where
  "codeInfo node =
     (case codeLang node of None \<Rightarrow> [] | Some l \<Rightarrow> if trim l \<noteq> [] then trim l else [])"

definition codeFence :: "code_node \<Rightarrow> string" where
  "codeFence node =
     replicate (max 3 (maxBacktickRun (stripFinalNewline (codeValue node)) + 1)) BTICK"

definition renderCodeBlock :: "code_node \<Rightarrow> nat \<Rightarrow> string" where
  "renderCodeBlock node indentLevel =
     (let info = codeInfo node;
          v = stripFinalNewline (codeValue node);
          fence = codeFence node;
          opn = (if info \<noteq> [] then fence @ info else fence);
          indentedCode = indentLines v indentLevel
      in join [NEWLINE] [indentLines opn indentLevel, indentedCode, indentLines fence indentLevel])"

section \<open>Date directive (frontmatter)\<close>

text \<open>
  The pattern \<open>/^(\d{4})-(\d{1,2})-(\d{1,2})$/\<close>: three groups of digits separated by two
  hyphens, of lengths 4, 1 or 2, and 1 or 2. No digit is a hyphen, so a match is exactly a
  split at the hyphens into three such groups.
\<close>

definition isoMatch :: "string \<Rightarrow> (string \<times> string \<times> string) option" where
  "isoMatch s =
     (case split CHR ''-'' s of
        [y, m, d] \<Rightarrow>
          if length y = 4 \<and> list_all isDigit y
             \<and> (length m = 1 \<or> length m = 2) \<and> list_all isDigit m
             \<and> (length d = 1 \<or> length d = 2) \<and> list_all isDigit d
          then Some (y, m, d) else None
      | _ \<Rightarrow> None)"

definition datetime :: "nat \<Rightarrow> nat \<Rightarrow> nat \<Rightarrow> string" where
  "datetime day month year =
     ''datetime(day: '' @ showNat day @ '', month: '' @ showNat month
       @ '', year: '' @ showNat year @ '')''"

definition parseDate :: "string \<Rightarrow> string" where
  "parseDate v0 =
     (let v = toLowerCase (trim v0)
      in if v = ''auto'' then ''auto''
         else if v = ''none'' then ''none''
         else (case isoMatch (trim v0) of
                 Some (y, m, d) \<Rightarrow> datetime (parseInt d) (parseInt m) (parseInt y)
               | None \<Rightarrow> ''auto''))"


section \<open>Errors, the error callback and the render state (types.ts)\<close>

text \<open>
  A thrown value is kept by the text that \<open>error instanceof Error ? error.message : String(error)\<close>
  reads from it.
\<close>

datatype exn = Exn string

fun errorMessage :: "exn \<Rightarrow> string" where
  "errorMessage (Exn m) = m"

datatype severity = WARNING | ERROR

record conv_error =
  severity :: severity
  message :: string
  errContext :: string
  details :: "(string \<times> string) list"
  originalError :: "exn option"

text \<open>
  The callback \<open>onError\<close> is code of the caller. What the converter can see of a call is
  whether it returns or throws; that may depend on the reports made before. So a callback is a
  function of the earlier reports and the present one, giving the value it throws, if any.
\<close>

type_synonym callback = "conv_error list \<Rightarrow> conv_error \<Rightarrow> exn option"

text \<open>
  The mutable part of a conversion: the calls made to the callback so far, and the record
  \<open>context.warnings\<close>.
\<close>

record rstate =
  reported :: "conv_error list"
  externalImages :: bool

text \<open>A statement of the source either returns a value or throws, and leaves a state.\<close>

type_synonym 'a m = "rstate \<Rightarrow> (exn + 'a) \<times> rstate"

definition mreturn :: "'a \<Rightarrow> 'a m" where
  "mreturn x = (\<lambda>s. (Inr x, s))"

definition mthrow :: "exn \<Rightarrow> 'a m" where
  "mthrow e = (\<lambda>s. (Inl e, s))"

definition mbind :: "'a m \<Rightarrow> ('a \<Rightarrow> 'b m) \<Rightarrow> 'b m" where
  "mbind c f = (\<lambda>s. case c s of (Inl e, s') \<Rightarrow> (Inl e, s') | (Inr x, s') \<Rightarrow> f x s')"

definition tryCatch :: "'a m \<Rightarrow> (exn \<Rightarrow> 'a m) \<Rightarrow> 'a m" where
  "tryCatch c h = (\<lambda>s. case c s of (Inl e, s') \<Rightarrow> h e s' | (Inr x, s') \<Rightarrow> (Inr x, s'))"

text \<open>\<open>Array.prototype.map\<close> with a function that may throw: the first throw ends the loop.\<close>

primrec mapM :: "('a \<Rightarrow> 'b m) \<Rightarrow> 'a list \<Rightarrow> 'b list m" where
  "mapM f [] = mreturn []"
| "mapM f (x # xs) = mbind (f x) (\<lambda>y. mbind (mapM f xs) (\<lambda>ys. mreturn (y # ys)))"

text \<open>\<open>if (onError) onError({...})\<close>\<close>

definition report :: "callback option \<Rightarrow> conv_error \<Rightarrow> unit m" where
  "report cbo err =
     (\<lambda>s. case cbo of
            None \<Rightarrow> (Inr (), s)
          | Some cb \<Rightarrow>
              (case cb (reported s) err of
                 None \<Rightarrow> (Inr (), s\<lparr>reported := reported s @ [err]\<rparr>)
               | Some e \<Rightarrow> (Inl e, s\<lparr>reported := reported s @ [err]\<rparr>)))"

section \<open>The document tree (mdast)\<close>

datatype position = Position (startOffset: "nat option") (endOffset: "nat option")

datatype inline =
    Text string
  | Strong "inline list"
  | Emphasis "inline list"
  | Delete "inline list"
  | Mark "inline list"
  | Subscript "inline list"
  | Superscript "inline list"
  | FootnoteReference string
  | InlineCode string
  | InlineMath string "position option"
  | Image string
  | Link string "inline list"
  | LinkReference string "string option" "inline list"
  | Break
  | Html string
  | OtherInline string

record def_node =
  defIdentifier :: string
  defUrl :: string

datatype align = AlignLeft | AlignRight | AlignCenter

text \<open>
  A list keeps, for each of its items, the children of the item. A table keeps its rows, a
  row its cells, a cell its phrasing content. \<open>OtherBlock\<close> is a node of any other type, with
  the type's name.
\<close>

datatype block =
    Yaml string
  | Definition def_node
  | FootnoteDefinition string "block list"
  | Heading nat "inline list"
  | Paragraph "inline list"
  | List bool "block list list"
  | Code code_node
  | Blockquote "block list"
  | ThematicBreak
  | Table "align option list option" "inline list list list"
  | Math string
  | OtherBlock string

fun nodeType :: "block \<Rightarrow> string" where
  "nodeType (Yaml _) = ''yaml''"
| "nodeType (Definition _) = ''definition''"
| "nodeType (FootnoteDefinition _ _) = ''footnoteDefinition''"
| "nodeType (Heading _ _) = ''heading''"
| "nodeType (Paragraph _) = ''paragraph''"
| "nodeType (List _ _) = ''list''"
| "nodeType (Code _) = ''code''"
| "nodeType (Blockquote _) = ''blockquote''"
| "nodeType ThematicBreak = ''thematicBreak''"
| "nodeType (Table _ _) = ''table''"
| "nodeType (Math _) = ''math''"
| "nodeType (OtherBlock t) = t"

text \<open>
  The render context. Beside the fields of \<open>RenderContext\<close> it carries the imported converter
  \<open>tex2typst\<close>, which is outside this repository and may throw.
\<close>

record render_context =
  definitions :: "string \<Rightarrow> def_node option"
  footnoteDefinitions :: "string \<Rightarrow> block list option"
  onError :: "callback option"
  tex2typst :: "string \<Rightarrow> exn + string"

section \<open>Plain text of phrasing content (utils.ts)\<close>

fun plainTextFromPhrasingNode :: "(string \<Rightarrow> def_node option) \<Rightarrow> inline \<Rightarrow> string" where
  "plainTextFromPhrasingNode defs (Text v) = v"
| "plainTextFromPhrasingNode defs (Strong cs) = concat (map (plainTextFromPhrasingNode defs) cs)"
| "plainTextFromPhrasingNode defs (Emphasis cs) = concat (map (plainTextFromPhrasingNode defs) cs)"
| "plainTextFromPhrasingNode defs (InlineCode v) = v"
| "plainTextFromPhrasingNode defs (Link u cs) = concat (map (plainTextFromPhrasingNode defs) cs)"
| "plainTextFromPhrasingNode defs (LinkReference ident lbl cs) =
     (let label = concat (map (plainTextFromPhrasingNode defs) cs)
      in if trim label \<noteq> [] then label
         else (case defs (toLowerCase ident) of
                 Some d \<Rightarrow> defUrl d
               | None \<Rightarrow> (case lbl of Some l \<Rightarrow> if l \<noteq> [] then l else ident | None \<Rightarrow> ident)))"
| "plainTextFromPhrasingNode defs Break = [NEWLINE]"
| "plainTextFromPhrasingNode defs _ = []"

definition plainTextFromPhrasing :: "inline list \<Rightarrow> (string \<Rightarrow> def_node option) \<Rightarrow> string" where
  "plainTextFromPhrasing nodes defs = concat (map (plainTextFromPhrasingNode defs) nodes)"


section \<open>Inline rendering (inline-renderer)\<close>

lemma mapM_cong [fundef_cong]:
  "xs = ys \<Longrightarrow> (\<And>x. x \<in> set ys \<Longrightarrow> f x = g x) \<Longrightarrow> mapM f xs = mapM g ys"
  by (induction ys arbitrary: xs) auto

text \<open>\<open>.filter(isNonEmpty)\<close> on the results of a \<open>map\<close>.\<close>

definition keepNonEmpty :: "string option list \<Rightarrow> string list" where
  "keepNonEmpty rs = map the (filter isNonEmpty rs)"

definition renderInlineCode :: "string \<Rightarrow> string" where
  "renderInlineCode v = [BTICK] @ replaceChar BTICK [BSLASH, BTICK] v @ [BTICK]"

text \<open>\<open>/^https?:\/\//i.test(url)\<close>\<close>

definition isExternal :: "string \<Rightarrow> bool" where
  "isExternal u = (toLowerCase (take 7 u) = ''http://'' \<or> toLowerCase (take 8 u) = ''https://'')"

text \<open>
  \<open>escapeTypstString\<close> does not throw, so the \<open>catch\<close> branches of \<open>renderImage\<close> are left
  out.
\<close>

definition renderImage :: "string \<Rightarrow> string m" where
  "renderImage u =
     (if isExternal u
      then (\<lambda>s. (Inr (''#external-image('' @ [NEWLINE] @ ''  '' @ [DQUOTE] @ escapeTypstString u
                        @ [DQUOTE] @ [NEWLINE] @ '')''),
                 s\<lparr>externalImages := True\<rparr>))
      else mreturn (''#image('' @ [DQUOTE] @ escapeTypstString u @ [DQUOTE] @ '')''))"

definition linkTo :: "string \<Rightarrow> string \<Rightarrow> string" where
  "linkTo u label =
     (if trim label = []
      then ''#link('' @ [DQUOTE] @ escapeTypstString u @ [DQUOTE] @ '')['' @ escapeTypstText u @ '']''
      else ''#link('' @ [DQUOTE] @ escapeTypstString u @ [DQUOTE] @ '')['' @ label @ '']'')"

text \<open>
  Whether an inline math span was written with two dollar signs on each side: the offsets of
  the node are known and lie at least four characters further apart than the trimmed value is
  long.
\<close>

definition isDisplayMath :: "position option \<Rightarrow> string \<Rightarrow> bool" where
  "isDisplayMath pos v =
     (case pos of
        None \<Rightarrow> False
      | Some p \<Rightarrow>
          (case (endOffset p, startOffset p) of
             (Some e, Some b) \<Rightarrow> int e - int b \<ge> int (length v) + 4
           | _ \<Rightarrow> False))"

definition mathSpan :: "bool \<Rightarrow> string \<Rightarrow> string" where
  "mathSpan display body = (if display then ''$ '' @ body @ '' $'' else ''$'' @ body @ ''$'')"

definition footnoteWarning :: "string \<Rightarrow> conv_error" where
  "footnoteWarning ident =
     \<lparr>severity = WARNING,
      message = ''Footnote reference [^'' @ ident @ ''] has no matching definition'',
      errContext = ''inline rendering'',
      details = [(''identifier'', ident)],
      originalError = None\<rparr>"

definition footnoteError :: "string \<Rightarrow> exn \<Rightarrow> conv_error" where
  "footnoteError ident e =
     \<lparr>severity = ERROR,
      message = ''Error rendering footnote [^'' @ ident @ '']: '' @ errorMessage e,
      errContext = ''inline rendering'',
      details = [],
      originalError = Some e\<rparr>"

definition inlineMathWarning :: "string \<Rightarrow> exn \<Rightarrow> conv_error" where
  "inlineMathWarning latex e =
     \<lparr>severity = WARNING,
      message = ''Failed to convert inline math LaTeX to Typst: '' @ errorMessage e,
      errContext = ''inline math rendering'',
      details = [(''latex'', latex)],
      originalError = Some e\<rparr>"

definition linkReferenceWarning :: "string \<Rightarrow> conv_error" where
  "linkReferenceWarning ident =
     \<lparr>severity = WARNING,
      message = ''Link reference ['' @ ident @ ''] has no matching definition'',
      errContext = ''inline rendering'',
      details = [(''identifier'', ident)],
      originalError = None\<rparr>"

definition linkReferenceError :: "string \<Rightarrow> exn \<Rightarrow> conv_error" where
  "linkReferenceError ident e =
     \<lparr>severity = ERROR,
      message = ''Error rendering link reference ['' @ ident @ '']: '' @ errorMessage e,
      errContext = ''inline rendering'',
      details = [],
      originalError = Some e\<rparr>"

text \<open>\<open>label || escapeTypstText(node.label || node.identifier)\<close>\<close>

definition fallbackLabel :: "string \<Rightarrow> string \<Rightarrow> string option \<Rightarrow> string" where
  "fallbackLabel label ident lbl =
     (if label \<noteq> [] then label
      else escapeTypstText (case lbl of Some l \<Rightarrow> if l \<noteq> [] then l else ident | None \<Rightarrow> ident))"

text \<open>
  The inline renderer reaches the block renderer only for the blocks of a footnote, through
  \<open>require('./block-renderer.js')\<close> at the time of the call. The model takes those calls
  \<open>renderBlock(child, 0, context)\<close> as the parameter \<open>rb\<close>.
\<close>

fun renderInline :: "(block \<Rightarrow> string option m) \<Rightarrow> render_context \<Rightarrow> inline \<Rightarrow> string option m"
  and renderInlines :: "(block \<Rightarrow> string option m) \<Rightarrow> render_context \<Rightarrow> inline list \<Rightarrow> string m"
where
  "renderInlines rb ctx nodes =
     mbind (mapM (renderInline rb ctx) nodes) (\<lambda>rs. mreturn (join [] (keepNonEmpty rs)))"
| "renderInline rb ctx (Text v) = mreturn (Some (escapeTypstText v))"
| "renderInline rb ctx (Strong cs) =
     mbind (renderInlines rb ctx cs) (\<lambda>r. mreturn (Some (''*'' @ r @ ''*'')))"
| "renderInline rb ctx (Emphasis cs) =
     mbind (renderInlines rb ctx cs) (\<lambda>r. mreturn (Some (''_'' @ r @ ''_'')))"
| "renderInline rb ctx (Delete cs) =
     mbind (renderInlines rb ctx cs) (\<lambda>r. mreturn (Some (''#strike['' @ r @ '']'')))"
| "renderInline rb ctx (Mark cs) =
     mbind (renderInlines rb ctx cs) (\<lambda>r. mreturn (Some (''#highlight['' @ r @ '']'')))"
| "renderInline rb ctx (Subscript cs) =
     mbind (renderInlines rb ctx cs) (\<lambda>r. mreturn (Some (''#sub['' @ r @ '']'')))"
| "renderInline rb ctx (Superscript cs) =
     mbind (renderInlines rb ctx cs) (\<lambda>r. mreturn (Some (''#super['' @ r @ '']'')))"
| "renderInline rb ctx (FootnoteReference ident) =
     (case footnoteDefinitions ctx (toLowerCase ident) of
        None \<Rightarrow> mbind (report (onError ctx) (footnoteWarning ident)) (\<lambda>_. mreturn (Some []))
      | Some children \<Rightarrow>
          tryCatch
            (mbind (mapM rb children)
               (\<lambda>rs. mreturn (Some (''#footnote['' @ trim (join '' '' (keepNonEmpty rs)) @ '']''))))
            (\<lambda>e. mbind (report (onError ctx) (footnoteError ident e)) (\<lambda>_. mreturn (Some []))))"
| "renderInline rb ctx (InlineCode v) = mreturn (Some (renderInlineCode v))"
| "renderInline rb ctx (InlineMath v0 pos) =
     (let v = trim v0
      in tryCatch
           (case tex2typst ctx v of
              Inl e \<Rightarrow> mthrow e
            | Inr typstMath \<Rightarrow> mreturn (Some (mathSpan (isDisplayMath pos v) typstMath)))
           (\<lambda>e. mbind (report (onError ctx) (inlineMathWarning v e))
                  (\<lambda>_. mreturn (Some (mathSpan (isDisplayMath pos v) v)))))"
| "renderInline rb ctx (Image u) = mbind (renderImage u) (\<lambda>r. mreturn (Some r))"
| "renderInline rb ctx (Link u cs) =
     mbind (renderInlines rb ctx cs) (\<lambda>label. mreturn (Some (linkTo u label)))"
| "renderInline rb ctx (LinkReference ident lbl cs) =
     mbind (renderInlines rb ctx cs)
       (\<lambda>label.
          case definitions ctx (toLowerCase ident) of
            None \<Rightarrow>
              mbind (report (onError ctx) (linkReferenceWarning ident))
                (\<lambda>_. mreturn (Some (fallbackLabel label ident lbl)))
          | Some d \<Rightarrow>
              tryCatch (mreturn (Some (linkTo (defUrl d) label)))
                (\<lambda>e. mbind (report (onError ctx) (linkReferenceError ident e))
                       (\<lambda>_. mreturn (Some (fallbackLabel label ident lbl)))))"
| "renderInline rb ctx Break = mreturn (Some [BSLASH, NEWLINE])"
| "renderInline rb ctx (Html v) = mreturn (Some (escapeTypstText v))"
| "renderInline rb ctx (OtherInline t) = mreturn None"


section \<open>Block rendering (block-renderer)\<close>

definition blockMathWarning :: "string \<Rightarrow> exn \<Rightarrow> conv_error" where
  "blockMathWarning latex e =
     \<lparr>severity = WARNING,
      message = ''Failed to convert block math LaTeX to Typst: '' @ errorMessage e,
      errContext = ''block math rendering'',
      details = [(''latex'', latex)],
      originalError = Some e\<rparr>"

definition renderMathBlock :: "render_context \<Rightarrow> string \<Rightarrow> nat \<Rightarrow> string m" where
  "renderMathBlock ctx v0 indentLevel =
     (let v = trim v0
      in tryCatch
           (case tex2typst ctx v of
              Inl e \<Rightarrow> mthrow e
            | Inr typstMath \<Rightarrow> mreturn (indentLines (''$ '' @ typstMath @ '' $'') indentLevel))
           (\<lambda>e. mbind (report (onError ctx) (blockMathWarning v e))
                  (\<lambda>_. mreturn (indentLines (''$ '' @ v @ '' $'') indentLevel))))"

definition renderHeading ::
  "(block \<Rightarrow> string option m) \<Rightarrow> render_context \<Rightarrow> nat \<Rightarrow> inline list \<Rightarrow> nat \<Rightarrow> string m" where
  "renderHeading rb ctx depth children indentLevel =
     (let level = min (max depth 1) 6
      in mbind (renderInlines rb ctx children)
           (\<lambda>r. mreturn (indentLines (replicate level CHR ''='' @ '' '' @ r) indentLevel)))"

definition renderParagraph ::
  "(block \<Rightarrow> string option m) \<Rightarrow> render_context \<Rightarrow> inline list \<Rightarrow> string m" where
  "renderParagraph rb ctx children =
     (let text = toLowerCase (trim (plainTextFromPhrasing children (definitions ctx)))
      in if text = ''[toc]'' then mreturn ''#outline(title: auto, indent: auto)''
         else renderInlines rb ctx children)"

definition emptyTableWarning :: conv_error where
  "emptyTableWarning =
     \<lparr>severity = WARNING, message = ''Empty table found (no rows)'',
      errContext = ''table rendering'', details = [], originalError = None\<rparr>"

definition noColumnsWarning :: conv_error where
  "noColumnsWarning =
     \<lparr>severity = WARNING, message = ''Table has no columns'',
      errContext = ''table rendering'', details = [], originalError = None\<rparr>"

definition tableError :: "exn \<Rightarrow> conv_error" where
  "tableError e =
     \<lparr>severity = ERROR, message = ''Error rendering table: '' @ errorMessage e,
      errContext = ''table rendering'', details = [], originalError = Some e\<rparr>"

text \<open>\<open>alignMap[a ?? 'left'] ?? 'left'\<close>\<close>

fun alignName :: "align option \<Rightarrow> string" where
  "alignName None = ''left''"
| "alignName (Some AlignLeft) = ''left''"
| "alignName (Some AlignRight) = ''right''"
| "alignName (Some AlignCenter) = ''center''"

definition renderTable ::
  "(block \<Rightarrow> string option m) \<Rightarrow> render_context \<Rightarrow> align option list option
     \<Rightarrow> inline list list list \<Rightarrow> nat \<Rightarrow> string m" where
  "renderTable rb ctx algn rows indentLevel =
     tryCatch
       (case rows of
          [] \<Rightarrow> mbind (report (onError ctx) emptyTableWarning) (\<lambda>_. mreturn [])
        | headerRow # rest \<Rightarrow>
            (let colCount = length headerRow
             in if colCount = 0
                then mbind (report (onError ctx) noColumnsWarning) (\<lambda>_. mreturn [])
                else
                  (let aligns = map alignName (case algn of None \<Rightarrow> [] | Some as \<Rightarrow> as);
                       columns = join '', '' (replicate colCount ''1fr'')
                   in mbind (mapM (\<lambda>cell. mbind (renderInlines rb ctx cell)
                                              (\<lambda>c. mreturn (''[*'' @ c @ ''*]''))) headerRow)
                        (\<lambda>headerCells.
                           mbind (mapM (\<lambda>cell. mbind (renderInlines rb ctx cell)
                                                  (\<lambda>c. mreturn (''['' @ c @ '']''))) (concat rest))
                             (\<lambda>dataCells.
                                (let alignArgs = join '', '' (take colCount aligns);
                                     lines = [''#table('',
                                              ''  columns: ('' @ columns @ ''),'',
                                              ''  align: ('' @ alignArgs @ ''),'',
                                              ''  table.header('' @ join '', '' headerCells @ ''),'',
                                              ''  '' @ join '', '' dataCells,
                                              '')'']
                                 in mreturn (indentLines (join [NEWLINE] lines) indentLevel)))))))
       (\<lambda>e. mbind (report (onError ctx) (tableError e)) (\<lambda>_. mreturn []))"

definition unknownBlockWarning :: "string \<Rightarrow> conv_error" where
  "unknownBlockWarning t =
     \<lparr>severity = WARNING, message = ''Unknown block node type: '' @ t,
      errContext = ''block rendering'', details = [(''nodeType'', t)], originalError = None\<rparr>"

definition blockError :: "string \<Rightarrow> exn \<Rightarrow> conv_error" where
  "blockError t e =
     \<lparr>severity = ERROR, message = ''Error rendering block node: '' @ errorMessage e,
      errContext = ''block rendering'', details = [(''nodeType'', t)], originalError = Some e\<rparr>"

text \<open>\<open>first?.type === 'paragraph'\<close>, with the children after the first.\<close>

fun leadingParagraph :: "block list \<Rightarrow> (inline list \<times> block list) option" where
  "leadingParagraph (Paragraph p # rest) = Some (p, rest)"
| "leadingParagraph _ = None"

text \<open>\<open>child.type === 'list'\<close>\<close>

fun asList :: "block \<Rightarrow> (bool \<times> block list list) option" where
  "asList (List ordered items) = Some (ordered, items)"
| "asList _ = None"

text \<open>\<open>if (rendered) lines.push(rendered)\<close>\<close>

definition pushIfTruthy :: "string option \<Rightarrow> string list" where
  "pushIfTruthy r = (case r of None \<Rightarrow> [] | Some x \<Rightarrow> if x \<noteq> [] then [x] else [])"

lemma mem_size_list: "x \<in> set xs \<Longrightarrow> f x < size_list f xs"
  by (induction xs) auto

lemma leadingParagraph_size:
  "leadingParagraph children = Some (p, rest) \<Longrightarrow> x \<in> set rest \<Longrightarrow> size x < size_list size children"
  by (induction children rule: leadingParagraph.induct) (auto simp: less_Suc_eq_le size_list_estimation')

lemma asList_size:
  "asList child = Some (ordered, items) \<Longrightarrow> size_list (size_list size) items < size child"
  by (cases child) auto

text \<open>
  \<open>renderBlock\<close> is the \<open>try\<close> around the \<open>switch\<close> on the node's type; \<open>renderSwitchWith\<close> is
  the \<open>switch\<close>. The functions carry the parameter \<open>rb\<close> of the inline renderer along.
\<close>

function (sequential) renderBlockWith ::
    "(block \<Rightarrow> string option m) \<Rightarrow> render_context \<Rightarrow> block \<Rightarrow> nat \<Rightarrow> string option m"
  and renderSwitchWith ::
    "(block \<Rightarrow> string option m) \<Rightarrow> render_context \<Rightarrow> block \<Rightarrow> nat \<Rightarrow> string option m"
  and renderListWith ::
    "(block \<Rightarrow> string option m) \<Rightarrow> render_context \<Rightarrow> bool \<Rightarrow> block list list \<Rightarrow> nat \<Rightarrow> string m"
  and renderListItemWith ::
    "(block \<Rightarrow> string option m) \<Rightarrow> render_context \<Rightarrow> block list \<Rightarrow> string \<Rightarrow> nat \<Rightarrow> string m"
  and renderBlockquoteWith ::
    "(block \<Rightarrow> string option m) \<Rightarrow> render_context \<Rightarrow> block list \<Rightarrow> nat \<Rightarrow> string m"
where
  "renderBlockWith rb ctx node indentLevel =
     tryCatch (renderSwitchWith rb ctx node indentLevel)
       (\<lambda>e. mbind (report (onError ctx) (blockError (nodeType node) e)) (\<lambda>_. mreturn None))"
| "renderSwitchWith rb ctx (Yaml v) indentLevel = mreturn None"
| "renderSwitchWith rb ctx (Definition d) indentLevel = mreturn None"
| "renderSwitchWith rb ctx (FootnoteDefinition ident children) indentLevel = mreturn None"
| "renderSwitchWith rb ctx (Heading depth children) indentLevel =
     mbind (renderHeading rb ctx depth children indentLevel) (\<lambda>r. mreturn (Some r))"
| "renderSwitchWith rb ctx (Paragraph children) indentLevel =
     mbind (renderParagraph rb ctx children) (\<lambda>r. mreturn (Some (indentLines r indentLevel)))"
| "renderSwitchWith rb ctx (List ordered items) indentLevel =
     mbind (renderListWith rb ctx ordered items indentLevel) (\<lambda>r. mreturn (Some r))"
| "renderSwitchWith rb ctx (Code node) indentLevel = mreturn (Some (renderCodeBlock node indentLevel))"
| "renderSwitchWith rb ctx (Blockquote children) indentLevel =
     mbind (renderBlockquoteWith rb ctx children indentLevel) (\<lambda>r. mreturn (Some r))"
| "renderSwitchWith rb ctx ThematicBreak indentLevel =
     mreturn (Some (indentLines ''#line(length: 100%, stroke: 0.6pt)'' indentLevel))"
| "renderSwitchWith rb ctx (Table algn rows) indentLevel =
     mbind (renderTable rb ctx algn rows indentLevel) (\<lambda>r. mreturn (Some r))"
| "renderSwitchWith rb ctx (Math v) indentLevel =
     mbind (renderMathBlock ctx v indentLevel) (\<lambda>r. mreturn (Some r))"
| "renderSwitchWith rb ctx (OtherBlock t) indentLevel =
     mbind (report (onError ctx) (unknownBlockWarning t)) (\<lambda>_. mreturn None)"
| "renderListWith rb ctx ordered items indentLevel =
     (let marker = (if ordered then ''+'' else ''-'')
      in mbind (mapM (\<lambda>item. renderListItemWith rb ctx item marker indentLevel) items)
           (\<lambda>rs. mreturn (join [NEWLINE] (filter (\<lambda>r. r \<noteq> []) rs))))"
| "renderListItemWith rb ctx children marker indentLevel =
     (let baseIndent = concat (replicate indentLevel ''  '');
          nestedIndentLevel = indentLevel + 1
      in case leadingParagraph children of
           Some (p, rest) \<Rightarrow>
             mbind (renderParagraph rb ctx p)
               (\<lambda>first.
                  mbind (mapM (\<lambda>child.
                                 case asList child of
                                   Some (ordered, items) \<Rightarrow>
                                     mbind (renderListWith rb ctx ordered items nestedIndentLevel)
                                       (\<lambda>r. mreturn [r])
                                 | None \<Rightarrow>
                                     mbind (renderBlockWith rb ctx child nestedIndentLevel)
                                       (\<lambda>r. mreturn (pushIfTruthy r)))
                           rest)
                    (\<lambda>pushed. mreturn (join [NEWLINE]
                                 ((baseIndent @ marker @ '' '' @ first) # concat pushed))))
         | None \<Rightarrow>
             mbind (mapM (\<lambda>child.
                            case asList child of
                              Some (ordered, items) \<Rightarrow>
                                mbind (renderListWith rb ctx ordered items nestedIndentLevel)
                                  (\<lambda>r. mreturn [r])
                            | None \<Rightarrow>
                                mbind (renderBlockWith rb ctx child nestedIndentLevel)
                                  (\<lambda>r. mreturn (pushIfTruthy r)))
                      children)
               (\<lambda>pushed. mreturn (join [NEWLINE] ((baseIndent @ marker) # concat pushed))))"
| "renderBlockquoteWith rb ctx children indentLevel =
     mbind (mapM (\<lambda>child. renderBlockWith rb ctx child 0) children)
       (\<lambda>rs. (let body = join [NEWLINE, NEWLINE] (keepNonEmpty rs);
                   opn = indentLines ''#quote['' indentLevel
               in if trim body = []
                  then mreturn (opn @ [NEWLINE] @ indentLines '']'' indentLevel)
                  else mreturn (join [NEWLINE]
                         [opn, indentLines body (indentLevel + 1), indentLines '']'' indentLevel])))"
  by pat_completeness auto
termination
proof (relation "measure (\<lambda>x. case x of
           Inl (Inl (rb, ctx, node, lvl)) \<Rightarrow> 2 * size node + 1
         | Inl (Inr (rb, ctx, node, lvl)) \<Rightarrow> 2 * size node
         | Inr (Inl (rb, ctx, ordered, items, lvl)) \<Rightarrow> 2 * size_list (size_list size) items + 1
         | Inr (Inr (Inl (rb, ctx, children, marker, lvl))) \<Rightarrow> 2 * size_list size children
         | Inr (Inr (Inr (rb, ctx, children, lvl))) \<Rightarrow> 2 * size_list size children + 1)",
       goal_cases)
  case 1
  show ?case by simp
next
  case 2
  show ?case by simp
next
  case 3
  show ?case by simp
next
  case 4
  show ?case by simp
next
  case (5 rb ctx ordered items indentLevel x xa)
  from mem_size_list[OF 5(2), of "size_list size"] show ?case by simp
next
  case (6 rb ctx children marker indentLevel x xa xb)
  from mem_size_list[OF 6(4), of size] show ?case by simp
next
  case (7 rb ctx children marker indentLevel x xa xb x2 xc y)
  from mem_size_list[OF 7(4), of size] asList_size[of xb xc y] 7(5,6) show ?case by simp
next
  case (8 rb ctx children marker indentLevel x xa x2 xb y xba xc)
  from leadingParagraph_size[of children xb y xc] 8 show ?case by simp
next
  case (9 rb ctx children marker indentLevel x xa x2 xb y xba xc x2a xd ya)
  from leadingParagraph_size[of children xb y xc] asList_size[of xc xd ya] 9 show ?case by simp
next
  case (10 rb ctx children indentLevel x)
  from mem_size_list[OF 10, of size] show ?case by simp
qed

text \<open>
  The footnote blocks are rendered by \<open>renderBlock\<close> itself, so a footnote that refers to
  itself makes the calls nest without end, until the call stack is used up and a
  \<open>RangeError\<close> is thrown, which the enclosing \<open>try\<close> catches like any other. The first argument
  of \<open>renderBlock\<close> is the number of nested footnotes that the stack has room for.
\<close>

primrec renderFootnoteBlock :: "nat \<Rightarrow> render_context \<Rightarrow> block \<Rightarrow> string option m" where
  "renderFootnoteBlock 0 ctx child = mthrow (Exn ''Maximum call stack size exceeded'')"
| "renderFootnoteBlock (Suc k) ctx child =
     renderBlockWith (renderFootnoteBlock k ctx) ctx child 0"

definition renderBlock :: "nat \<Rightarrow> render_context \<Rightarrow> block \<Rightarrow> nat \<Rightarrow> string option m" where
  "renderBlock k ctx node indentLevel =
     renderBlockWith (renderFootnoteBlock k ctx) ctx node indentLevel"

section \<open>Collecting definitions and footnotes (collectors)\<close>

definition duplicateDefinitionWarning :: "def_node \<Rightarrow> conv_error" where
  "duplicateDefinitionWarning d =
     \<lparr>severity = WARNING,
      message = ''Duplicate link/image definition found: ['' @ defIdentifier d @ '']'',
      errContext = ''definition collection'',
      details = [(''identifier'', defIdentifier d), (''url'', defUrl d)],
      originalError = None\<rparr>"

definition collectDefinitionsError :: "exn \<Rightarrow> conv_error" where
  "collectDefinitionsError e =
     \<lparr>severity = ERROR, message = ''Error collecting definitions: '' @ errorMessage e,
      errContext = ''definition collection'', details = [], originalError = Some e\<rparr>"

text \<open>
  The loop of \<open>collectDefinitions\<close> over \<open>root.children\<close>. The map is a local variable that
  outlives a throw, so the loop gives the map it has reached together with the thrown value,
  if any.
\<close>

fun collectDefinitions_loop ::
  "callback option \<Rightarrow> block list \<Rightarrow> (string \<Rightarrow> def_node option) \<Rightarrow> rstate
     \<Rightarrow> (exn option \<times> (string \<Rightarrow> def_node option)) \<times> rstate" where
  "collectDefinitions_loop cbo [] defs s = ((None, defs), s)"
| "collectDefinitions_loop cbo (Definition d # rest) defs s =
     (let ident = toLowerCase (defIdentifier d)
      in case (if defs ident \<noteq> None then report cbo (duplicateDefinitionWarning d) s
               else (Inr (), s)) of
           (Inl e, s') \<Rightarrow> ((Some e, defs), s')
         | (Inr _, s') \<Rightarrow> collectDefinitions_loop cbo rest (defs(ident \<mapsto> d)) s')"
| "collectDefinitions_loop cbo (node # rest) defs s = collectDefinitions_loop cbo rest defs s"

definition collectDefinitions ::
  "block list \<Rightarrow> callback option \<Rightarrow> (string \<Rightarrow> def_node option) m" where
  "collectDefinitions root cbo =
     (\<lambda>s. case collectDefinitions_loop cbo root Map.empty s of
            ((None, defs), s') \<Rightarrow> (Inr defs, s')
          | ((Some e, defs), s') \<Rightarrow>
              mbind (report cbo (collectDefinitionsError e)) (\<lambda>_. mreturn defs) s')"

definition duplicateFootnoteWarning :: "string \<Rightarrow> conv_error" where
  "duplicateFootnoteWarning ident =
     \<lparr>severity = WARNING,
      message = ''Duplicate footnote definition found: [^'' @ ident @ '']'',
      errContext = ''footnote collection'',
      details = [(''identifier'', ident)],
      originalError = None\<rparr>"

definition collectFootnotesError :: "exn \<Rightarrow> conv_error" where
  "collectFootnotesError e =
     \<lparr>severity = ERROR, message = ''Error collecting footnotes: '' @ errorMessage e,
      errContext = ''footnote collection'', details = [], originalError = Some e\<rparr>"

fun collectFootnotes_loop ::
  "callback option \<Rightarrow> block list \<Rightarrow> (string \<Rightarrow> block list option) \<Rightarrow> rstate
     \<Rightarrow> (exn option \<times> (string \<Rightarrow> block list option)) \<times> rstate" where
  "collectFootnotes_loop cbo [] defs s = ((None, defs), s)"
| "collectFootnotes_loop cbo (FootnoteDefinition ident0 children # rest) defs s =
     (let ident = toLowerCase ident0
      in case (if defs ident \<noteq> None then report cbo (duplicateFootnoteWarning ident0) s
               else (Inr (), s)) of
           (Inl e, s') \<Rightarrow> ((Some e, defs), s')
         | (Inr _, s') \<Rightarrow> collectFootnotes_loop cbo rest (defs(ident \<mapsto> children)) s')"
| "collectFootnotes_loop cbo (node # rest) defs s = collectFootnotes_loop cbo rest defs s"

definition collectFootnotes ::
  "block list \<Rightarrow> callback option \<Rightarrow> (string \<Rightarrow> block list option) m" where
  "collectFootnotes root cbo =
     (\<lambda>s. case collectFootnotes_loop cbo root Map.empty s of
            ((None, defs), s') \<Rightarrow> (Inr defs, s')
          | ((Some e, defs), s') \<Rightarrow>
              mbind (report cbo (collectFootnotesError e)) (\<lambda>_. mreturn defs) s')"

text \<open>
  \<open>findLeadingH1\<close>, with the index counted from \<open>i\<close>. Nothing in its \<open>try\<close> block throws, so
  the \<open>catch\<close> branch is left out.
\<close>

fun findLeadingH1_from ::
  "nat \<Rightarrow> block list \<Rightarrow> (string \<Rightarrow> def_node option) \<Rightarrow> (string \<times> nat) option" where
  "findLeadingH1_from i [] defs = None"
| "findLeadingH1_from i (Yaml v # rest) defs = findLeadingH1_from (i + 1) rest defs"
| "findLeadingH1_from i (Definition d # rest) defs = findLeadingH1_from (i + 1) rest defs"
| "findLeadingH1_from i (Heading depth children # rest) defs =
     (if depth \<noteq> 1 then None
      else (let title = trim (plainTextFromPhrasing children defs)
            in if title \<noteq> [] then Some (title, i) else None))"
| "findLeadingH1_from i (node # rest) defs = None"

definition findLeadingH1 ::
  "block list \<Rightarrow> (string \<Rightarrow> def_node option) \<Rightarrow> (string \<times> nat) option" where
  "findLeadingH1 root defs = findLeadingH1_from 0 root defs"

section \<open>Frontmatter and options (frontmatter, types.ts)\<close>

text \<open>A value decoded from YAML by \<open>js-yaml\<close>; a date carries the text of \<open>toISOString()\<close>.\<close>

datatype yaml =
    YNull
  | YBool bool
  | YNum int
  | YStr string
  | YDate string
  | YSeq "yaml list"
  | YMap "(string \<times> yaml) list"

datatype author_field = AuthorString string | AuthorList "string list"

record frontmatter =
  title :: "string option"
  author :: "author_field option"
  authors :: "string list option"
  description :: "string option"
  keywordList :: "string list option"
  date :: "string option"
  abstract :: "string option"
  lang :: "string option"
  language :: "string option"
  region :: "string option"

text \<open>\<open>Markdown2TypstOptions\<close> has the fields of \<open>Frontmatter\<close> and two more.\<close>

record options = frontmatter +
  useH1AsTitle :: bool
  optOnError :: "callback option"

record document_metadata =
  metaTitle :: string
  metaAuthors :: "string list"
  metaDescription :: "string option"
  metaKeywords :: "string list option"
  metaDate :: "string option"
  metaAbstract :: "string option"
  metaLang :: "string option"
  metaRegion :: "string option"

definition emptyFrontmatter :: frontmatter where
  "emptyFrontmatter =
     \<lparr>title = None, author = None, authors = None, description = None, keywordList = None,
      date = None, abstract = None, lang = None, language = None, region = None\<rparr>"

text \<open>\<open>typeof x === 'string'\<close> on a decoded value, and the strings of an array.\<close>

fun yamlString :: "yaml \<Rightarrow> string option" where
  "yamlString (YStr v) = Some v"
| "yamlString _ = None"

definition yamlStrings :: "yaml list \<Rightarrow> string list" where
  "yamlStrings vs = List.map_filter yamlString vs"

fun yamlArray :: "yaml \<Rightarrow> yaml list option" where
  "yamlArray (YSeq vs) = Some vs"
| "yamlArray _ = None"

text \<open>\<open>typeof v\<close>, for the details of a report.\<close>

fun yamlTypeof :: "yaml \<Rightarrow> string" where
  "yamlTypeof YNull = ''object''"
| "yamlTypeof (YBool _) = ''boolean''"
| "yamlTypeof (YNum _) = ''number''"
| "yamlTypeof (YStr _) = ''string''"
| "yamlTypeof (YDate _) = ''object''"
| "yamlTypeof (YSeq _) = ''object''"
| "yamlTypeof (YMap _) = ''object''"

definition emptyYamlWarning :: conv_error where
  "emptyYamlWarning =
     \<lparr>severity = WARNING, message = ''YAML frontmatter is empty or not an object'',
      errContext = ''frontmatter parsing'', details = [], originalError = None\<rparr>"

definition authorFieldWarning :: "yaml \<Rightarrow> conv_error" where
  "authorFieldWarning v =
     \<lparr>severity = WARNING,
      message = ''Frontmatter '' @ [DQUOTE] @ ''author'' @ [DQUOTE]
                  @ '' field must be a string or array of strings'',
      errContext = ''frontmatter parsing'',
      details = [(''fieldType'', yamlTypeof v)],
      originalError = None\<rparr>"

definition yamlParseWarning :: "exn \<Rightarrow> conv_error" where
  "yamlParseWarning e =
     \<lparr>severity = WARNING, message = ''Failed to parse YAML frontmatter: '' @ errorMessage e,
      errContext = ''frontmatter parsing'', details = [], originalError = Some e\<rparr>"

text \<open>The fields of a decoded mapping, read one after the other; only \<open>author\<close> can report.\<close>

definition frontmatterFields :: "(string \<times> yaml) list \<Rightarrow> callback option \<Rightarrow> frontmatter m" where
  "frontmatterFields kvs cbo =
     (let get = map_of kvs;
          str = (\<lambda>k. case get k of None \<Rightarrow> None | Some v \<Rightarrow> yamlString v);
          arr = (\<lambda>k. case get k of
                        None \<Rightarrow> None
                      | Some v \<Rightarrow> (case yamlArray v of None \<Rightarrow> None | Some vs \<Rightarrow> Some (yamlStrings vs)))
      in mbind
           (case get ''author'' of
              None \<Rightarrow> mreturn None
            | Some (YStr a) \<Rightarrow> mreturn (Some (AuthorString a))
            | Some (YSeq vs) \<Rightarrow> mreturn (Some (AuthorList (yamlStrings vs)))
            | Some v \<Rightarrow> mbind (report cbo (authorFieldWarning v)) (\<lambda>_. mreturn None))
           (\<lambda>a. mreturn
                  \<lparr>title = str ''title'',
                   author = a,
                   authors = arr ''authors'',
                   description = str ''description'',
                   keywordList = arr ''keywords'',
                   date = (case get ''date'' of
                             Some (YStr d) \<Rightarrow> Some d
                           | Some (YDate isoText) \<Rightarrow> Some (hd (split CHR ''T'' isoText))
                           | _ \<Rightarrow> None),
                   abstract = str ''abstract'',
                   lang = str ''lang'',
                   language = str ''language'',
                   region = str ''region''\<rparr>))"

text \<open>\<open>!parsed || typeof parsed !== 'object'\<close>\<close>

fun notAnObject :: "yaml \<Rightarrow> bool" where
  "notAnObject YNull = True"
| "notAnObject (YBool _) = True"
| "notAnObject (YNum _) = True"
| "notAnObject (YStr _) = True"
| "notAnObject _ = False"

definition parseFrontmatterYaml ::
  "(string \<Rightarrow> exn + yaml) \<Rightarrow> string \<Rightarrow> callback option \<Rightarrow> frontmatter m" where
  "parseFrontmatterYaml parseYaml text cbo =
     tryCatch
       (case parseYaml text of
          Inl e \<Rightarrow> mthrow e
        | Inr parsed \<Rightarrow>
            if notAnObject parsed
            then mbind (report cbo emptyYamlWarning) (\<lambda>_. mreturn emptyFrontmatter)
            else (case parsed of
                    YMap kvs \<Rightarrow> frontmatterFields kvs cbo
                  | _ \<Rightarrow> frontmatterFields [] cbo))
       (\<lambda>e. mbind (report cbo (yamlParseWarning e)) (\<lambda>_. mreturn emptyFrontmatter))"

fun firstYaml :: "block list \<Rightarrow> string option" where
  "firstYaml [] = None"
| "firstYaml (Yaml v # rest) = Some v"
| "firstYaml (node # rest) = firstYaml rest"

definition parseFrontmatter ::
  "(string \<Rightarrow> exn + yaml) \<Rightarrow> block list \<Rightarrow> callback option \<Rightarrow> frontmatter m" where
  "parseFrontmatter parseYaml root cbo =
     (case firstYaml root of
        None \<Rightarrow> mreturn emptyFrontmatter
      | Some v \<Rightarrow> if v = [] then mreturn emptyFrontmatter else parseFrontmatterYaml parseYaml v cbo)"

text \<open>
  The tables of the packages \<open>langs\<close> and \<open>country-list\<close> are outside this repository; the
  model takes what the code asks of them as parameters.
\<close>

record lang_entry =
  langName :: string
  langLocal :: string
  iso1 :: string

record tables =
  langsCodes1 :: "string list"
  langsAll :: "lang_entry list"
  langsWhere :: "string \<Rightarrow> string \<Rightarrow> lang_entry option"
  countryCodes :: "string list"
  countryGetCode :: "string \<Rightarrow> string option"

fun langByName :: "lang_entry list \<Rightarrow> string \<Rightarrow> string option" where
  "langByName [] v = None"
| "langByName (l # ls) v =
     (if langName l \<noteq> [] \<and> toLowerCase (langName l) = toLowerCase v \<and> iso1 l \<noteq> [] then Some (iso1 l)
      else if langLocal l \<noteq> [] \<and> toLowerCase (langLocal l) = toLowerCase v \<and> iso1 l \<noteq> []
      then Some (iso1 l)
      else langByName ls v)"

definition langsWhere1 :: "tables \<Rightarrow> string \<Rightarrow> string \<Rightarrow> string option" where
  "langsWhere1 tb crit v =
     (case langsWhere tb crit v of
        None \<Rightarrow> None
      | Some l \<Rightarrow> if iso1 l \<noteq> [] then Some (iso1 l) else None)"

definition coerceLanguage :: "tables \<Rightarrow> string option \<Rightarrow> string option" where
  "coerceLanguage tb v0 =
     (case v0 of
        None \<Rightarrow> None
      | Some v1 \<Rightarrow>
          (let v = trim v1
           in if v = [] then None
              else
                (let langPart = toLowerCase (takeWhile (\<lambda>c. c \<noteq> CHR ''-'' \<and> c \<noteq> CHR ''_'') v)
                 in if langPart \<in> set (langsCodes1 tb) then Some langPart
                    else (case langByName (langsAll tb) v of
                            Some c \<Rightarrow> Some c
                          | None \<Rightarrow>
                              (case langsWhere1 tb ''2'' (toLowerCase v) of
                                 Some c \<Rightarrow> Some c
                               | None \<Rightarrow>
                                   (case langsWhere1 tb ''2B'' (toLowerCase v) of
                                      Some c \<Rightarrow> Some c
                                    | None \<Rightarrow> langsWhere1 tb ''3'' (toLowerCase v)))))))"

text \<open>\<open>String.prototype.toUpperCase\<close> on the letters of a code.\<close>

definition upperChar :: "char \<Rightarrow> char" where
  "upperChar c =
     (let n = (of_char c :: nat)
      in if (97 \<le> n \<and> n \<le> 122) \<or> (224 \<le> n \<and> n \<le> 254 \<and> n \<noteq> 247)
         then char_of (n - 32) else c)"

definition toUpperCase :: "string \<Rightarrow> string" where
  "toUpperCase s = map upperChar s"

definition coerceRegion :: "tables \<Rightarrow> string option \<Rightarrow> string option" where
  "coerceRegion tb v0 =
     (case v0 of
        None \<Rightarrow> None
      | Some v1 \<Rightarrow>
          (let v = trim v1
           in if v = [] then None
              else if toUpperCase v \<in> set (countryCodes tb) then Some (toUpperCase v)
              else (case countryGetCode tb v of
                      Some code \<Rightarrow> if code \<noteq> [] then Some (toUpperCase code) else None
                    | None \<Rightarrow> None)))"

text \<open>\<open>a ?? b\<close>\<close>

definition orElse :: "'a option \<Rightarrow> 'a option \<Rightarrow> 'a option" where
  "orElse a b = (case a of Some x \<Rightarrow> Some x | None \<Rightarrow> b)"

text \<open>\<open>x.authors ?? (typeof x.author === 'string' ? [x.author] : x.author) ?? []\<close>\<close>

definition authorList :: "'a frontmatter_scheme \<Rightarrow> string list" where
  "authorList x =
     (case authors x of
        Some as \<Rightarrow> as
      | None \<Rightarrow>
          (case author x of
             Some (AuthorString a) \<Rightarrow> [a]
           | Some (AuthorList as) \<Rightarrow> as
           | None \<Rightarrow> []))"

definition mergeMetadata ::
  "tables \<Rightarrow> options \<Rightarrow> frontmatter \<Rightarrow> string option \<Rightarrow> document_metadata" where
  "mergeMetadata tb opts fm leadingTitle =
     (let optionsAuthors = authorList opts;
          frontmatterAuthors = authorList fm
      in \<lparr>metaTitle = (case orElse (title opts) (orElse (title fm) leadingTitle) of
                          Some t \<Rightarrow> t | None \<Rightarrow> []),
          metaAuthors = (if length optionsAuthors > 0 then optionsAuthors else frontmatterAuthors),
          metaDescription = orElse (description opts) (description fm),
          metaKeywords = orElse (keywordList opts) (keywordList fm),
          metaDate = orElse (date opts) (date fm),
          metaAbstract = orElse (abstract opts) (abstract fm),
          metaLang = coerceLanguage tb
                       (orElse (lang opts) (orElse (language opts) (orElse (lang fm) (language fm)))),
          metaRegion = coerceRegion tb (orElse (region opts) (region fm))\<rparr>)"

section \<open>Assembling the output (output-builder)\<close>

definition buildWarningsSection :: "rstate \<Rightarrow> string option" where
  "buildWarningsSection s =
     (if \<not> externalImages s then None
      else Some (join [NEWLINE]
        ([''// ========================= WARNINGS ========================='',
          '''',
          ''// ------------------------------------------------------------'',
          ''// NOTE: The conversion did not work perfectly due to intrinsic'',
          ''// Markdown to Typst limitations. The following custom'',
          ''// functions, set or show rules are used to visually display'',
          ''// these minor conversion warnings to the user.'',
          ''// ------------------------------------------------------------'',
          '''']
         @ (if externalImages s
            then [''// EXTERNAL IMAGES WERE DETECTED!'',
                  ''#let external-image(url) = {'',
                  ''  rect(radius: 4pt, inset: 20pt,)['',
                  ''    #align(center)['',
                  ''      #text()['',
                  ''        External image detected: '' @ [BSLASH],
                  ''        #link(url)'',
                  ''      ]'',
                  ''    ]'',
                  ''  ]'',
                  ''}'',
                  '''']
            else [])
         @ [''// ============================================================''])))"

text \<open>Whether an optional string counts as true in a condition: it is there and not empty.\<close>

definition truthy :: "string option \<Rightarrow> bool" where
  "truthy v = (case v of None \<Rightarrow> False | Some s \<Rightarrow> s \<noteq> [])"

definition hasMetadata :: "document_metadata \<Rightarrow> bool" where
  "hasMetadata md =
     (metaTitle md \<noteq> [] \<or> length (metaAuthors md) > 0 \<or> truthy (metaDescription md)
      \<or> truthy (metaDate md)
      \<or> (case metaKeywords md of None \<Rightarrow> False | Some ks \<Rightarrow> length ks > 0))"

definition dateParseWarning :: "string \<Rightarrow> exn \<Rightarrow> conv_error" where
  "dateParseWarning d e =
     \<lparr>severity = WARNING,
      message = ''Failed to parse date '' @ [DQUOTE] @ d @ [DQUOTE] @ '': '' @ errorMessage e,
      errContext = ''output building'', details = [], originalError = Some e\<rparr>"

definition metadataError :: "exn \<Rightarrow> conv_error" where
  "metadataError e =
     \<lparr>severity = ERROR, message = ''Error building document metadata: '' @ errorMessage e,
      errContext = ''output building'', details = [], originalError = Some e\<rparr>"

definition fatalOutputError :: "exn \<Rightarrow> conv_error" where
  "fatalOutputError e =
     \<lparr>severity = ERROR, message = ''Fatal error building output: '' @ errorMessage e,
      errContext = ''output building'', details = [], originalError = Some e\<rparr>"

text \<open>The \<open>date\<close> argument of the document: the inner \<open>try\<close> of \<open>buildOutput\<close>.\<close>

definition dateArg :: "render_context \<Rightarrow> string \<Rightarrow> string m" where
  "dateArg ctx d =
     tryCatch (mreturn (''date: '' @ parseDate d))
       (\<lambda>e. mbind (report (onError ctx) (dateParseWarning d e)) (\<lambda>_. mreturn ''date: auto''))"

text \<open>The lines of the arguments: every one but the last ends with a comma.\<close>

fun docArgLines :: "string list \<Rightarrow> string list" where
  "docArgLines [] = []"
| "docArgLines [x] = [''  '' @ x]"
| "docArgLines (x # y # ys) = (''  '' @ x @ '','') # docArgLines (y # ys)"

definition quoted :: "string \<Rightarrow> string" where
  "quoted a = [DQUOTE] @ escapeTypstString a @ [DQUOTE]"

text \<open>
  The block \<open>if (hasMetadata) { try { ... } catch ... }\<close>: the lines it adds to \<open>parts\<close>. The
  two lines of the heading are pushed first and stay when the rest throws.
\<close>

definition metadataSection :: "render_context \<Rightarrow> document_metadata \<Rightarrow> string list m" where
  "metadataSection ctx md =
     (let header = [''// ===============  FRONTMATTER  ==============='', ''''];
          docArgs =
            (if metaTitle md \<noteq> [] then [''title: ['' @ metaTitle md @ '']''] else [])
            @ (if length (metaAuthors md) > 0
               then [''author: '' @ renderTypstArray (map quoted (metaAuthors md))] else [])
            @ (if truthy (metaDescription md)
               then [''description: ['' @ the (metaDescription md) @ '']''] else [])
            @ (case metaKeywords md of
                 None \<Rightarrow> []
               | Some ks \<Rightarrow> if length ks > 0
                            then [''keywords: '' @ renderTypstArray (map quoted ks)] else [])
      in tryCatch
           (mbind (if truthy (metaDate md)
                   then mbind (dateArg ctx (the (metaDate md))) (\<lambda>d. mreturn [d])
                   else mreturn [])
              (\<lambda>dateArgs. mreturn (header @ [''#set document(''] @ docArgLines (docArgs @ dateArgs)
                                     @ ['')''])))
           (\<lambda>e. mbind (report (onError ctx) (metadataError e)) (\<lambda>_. mreturn header)))"

text \<open>
  The rest of \<open>buildOutput\<close> after the metadata block. \<open>parts0\<close> holds the lines so far;
  \<open>headerParts\<close> adds the abstract, the title block, the text settings and the closing line;
  \<open>assembleOutput\<close> then adds what \<open>buildWarningsSection\<close> gave and the rendered body.
\<close>

definition headerParts :: "document_metadata \<Rightarrow> string list \<Rightarrow> string list" where
  "headerParts md parts0 =
     (let parts1 = parts0
            @ (if truthy (metaAbstract md)
               then (if length parts0 > 0 then [''''] else [])
                    @ [''#let abstract = ['' @ the (metaAbstract md) @ '']'']
               else []);
          centerLines =
            (if metaTitle md \<noteq> [] then [''#title() '' @ [BSLASH] @ '' '' @ [BSLASH]] else [])
            @ (if length (metaAuthors md) > 0
               then [''#context document.author.join('' @ [DQUOTE] @ '', '' @ [DQUOTE] @ '', last: ''
                      @ [DQUOTE] @ '' & '' @ [DQUOTE] @ '') '' @ [BSLASH] @ '' '' @ [BSLASH]]
               else [])
            @ (if truthy (metaDate md)
               then [''#context document.date.display() '' @ [BSLASH] @ '' '' @ [BSLASH] @ '' '']
               else [])
            @ (if truthy (metaAbstract md)
               then [[BSLASH] @ '' *Abstract* '' @ [BSLASH], ''#abstract''] else []);
          parts2 = parts1
            @ (if (metaTitle md \<noteq> [] \<or> length (metaAuthors md) > 0 \<or> truthy (metaDate md)
                   \<or> truthy (metaAbstract md)) \<and> hasMetadata md
               then ['''', ''#align(center)['', ''  '' @ join '' '' centerLines, '']'']
               else []);
          parts3 = parts2
            @ (if truthy (metaLang md) \<or> truthy (metaRegion md)
               then (if length parts2 > 0 then [''''] else [])
                    @ [''#set text(''
                       @ join '', ''
                           ((if truthy (metaLang md)
                             then [''lang: '' @ [DQUOTE] @ the (metaLang md) @ [DQUOTE]] else [])
                            @ (if truthy (metaRegion md)
                               then [''region: '' @ [DQUOTE] @ the (metaRegion md) @ [DQUOTE]]
                               else []))
                       @ '')'']
               else [])
      in parts3
         @ (if hasMetadata md
            then ['''', ''//  ============================================''] else []))"

definition assembleOutput ::
  "document_metadata \<Rightarrow> string list \<Rightarrow> string option \<Rightarrow> string \<Rightarrow> string" where
  "assembleOutput md parts0 warningsSection body =
     (let parts4 = headerParts md parts0;
          parts5 = parts4
            @ (case warningsSection of None \<Rightarrow> [] | Some w \<Rightarrow> if w \<noteq> [] then ['''', w] else []);
          parts6 = parts5 @ (if length parts5 > 0 \<and> body \<noteq> [] then [''''] else []);
          parts7 = parts6 @ (if body \<noteq> [] then [body] else [])
      in if length parts7 > 0 then join [NEWLINE] parts7 else body)"

text \<open>\<open>tree.children.filter((_, index) => index !== leadingTitleIndex)\<close>\<close>

definition removeAt :: "nat \<Rightarrow> 'a list \<Rightarrow> 'a list" where
  "removeAt i xs = take i xs @ drop (Suc i) xs"

text \<open>\<open>nodesForBody.map((node) => renderBlock(node, 0, context)).filter(isNonEmpty).join('\n\n')\<close>\<close>

definition renderBody :: "nat \<Rightarrow> render_context \<Rightarrow> block list \<Rightarrow> string m" where
  "renderBody k ctx nodesForBody =
     mbind (mapM (\<lambda>node. renderBlock k ctx node 0) nodesForBody)
       (\<lambda>rs. mreturn (join [NEWLINE, NEWLINE] (keepNonEmpty rs)))"

definition nodesForBody :: "block list \<Rightarrow> document_metadata \<Rightarrow> nat option \<Rightarrow> block list" where
  "nodesForBody tree md leadingTitleIndex =
     (case leadingTitleIndex of
        None \<Rightarrow> tree
      | Some i \<Rightarrow> if normalizeText (Some (metaTitle md)) \<noteq> [] then removeAt i tree else tree)"

definition buildOutput ::
  "nat \<Rightarrow> block list \<Rightarrow> document_metadata \<Rightarrow> nat option \<Rightarrow> render_context \<Rightarrow> string m" where
  "buildOutput k tree md leadingTitleIndex ctx =
     tryCatch
       (mbind (renderBody k ctx (nodesForBody tree md leadingTitleIndex))
          (\<lambda>body.
             mbind (if hasMetadata md then metadataSection ctx md else mreturn [])
               (\<lambda>parts0 s. (Inr (assembleOutput md parts0 (buildWarningsSection s) body), s))))
       (\<lambda>e. mbind (report (onError ctx) (fatalOutputError e)) (\<lambda>_. mthrow e))"

section \<open>The conversion (markdown2typst)\<close>

text \<open>
  What the conversion imports from other packages: the Markdown parser, the YAML decoder, the
  math converter and the language and country tables.
\<close>

record externals =
  parseTree :: "string \<Rightarrow> exn + block list"
  parseYaml :: "string \<Rightarrow> exn + yaml"
  texToTypst :: "string \<Rightarrow> exn + string"
  lookupTables :: tables

definition markdownParseError :: "exn \<Rightarrow> conv_error" where
  "markdownParseError e =
     \<lparr>severity = ERROR, message = ''Failed to parse Markdown: '' @ errorMessage e,
      errContext = ''markdown parsing'', details = [], originalError = Some e\<rparr>"

definition fatalConversionError :: "exn \<Rightarrow> conv_error" where
  "fatalConversionError e =
     \<lparr>severity = ERROR, message = ''Fatal error during conversion: '' @ errorMessage e,
      errContext = ''markdown2typst'', details = [], originalError = Some e\<rparr>"

definition parseMarkdown ::
  "(string \<Rightarrow> exn + block list) \<Rightarrow> string \<Rightarrow> callback option \<Rightarrow> block list m" where
  "parseMarkdown parser markdown cbo =
     tryCatch (case parser markdown of Inl e \<Rightarrow> mthrow e | Inr tree \<Rightarrow> mreturn tree)
       (\<lambda>e. mbind (report cbo (markdownParseError e)) (\<lambda>_. mthrow e))"

definition markdown2typst :: "externals \<Rightarrow> nat \<Rightarrow> string \<Rightarrow> options \<Rightarrow> string m" where
  "markdown2typst ext k markdown opts =
     tryCatch
       (mbind (parseMarkdown (parseTree ext) markdown (optOnError opts))
          (\<lambda>tree.
             mbind (collectDefinitions tree (optOnError opts))
               (\<lambda>defs.
                  mbind (collectFootnotes tree (optOnError opts))
                    (\<lambda>footnotes.
                       mbind (parseFrontmatter (parseYaml ext) tree (optOnError opts))
                         (\<lambda>fm.
                            (let leadingH1 = (if useH1AsTitle opts then findLeadingH1 tree defs
                                              else None);
                                 metadata = mergeMetadata (lookupTables ext) opts fm
                                              (map_option fst leadingH1);
                                 ctx = \<lparr>definitions = defs, footnoteDefinitions = footnotes,
                                        onError = optOnError opts, tex2typst = texToTypst ext\<rparr>
                             in (\<lambda>s. buildOutput k tree metadata (map_option snd leadingH1) ctx
                                        (s\<lparr>externalImages := False\<rparr>))))))))
       (\<lambda>e. mbind (report (optOnError opts) (fatalConversionError e)) (\<lambda>_. mthrow e))"

text \<open>A conversion starts with no report made.\<close>

definition initialState :: rstate where
  "initialState = \<lparr>reported = [], externalImages = False\<rparr>"

section \<open>Notions used to state the properties\<close>

text \<open>The definition nodes among the children of the root, in source order.\<close>

fun defNodes :: "block list \<Rightarrow> def_node list" where
  "defNodes [] = []"
| "defNodes (Definition d # rest) = d # defNodes rest"
| "defNodes (node # rest) = defNodes rest"

text \<open>The key under which a definition is stored.\<close>

definition normId :: "def_node \<Rightarrow> string" where
  "normId d = toLowerCase (defIdentifier d)"

text \<open>A callback that returns from every call, or no callback at all.\<close>

definition returnsNormally :: "callback option \<Rightarrow> bool" where
  "returnsNormally cbo = (case cbo of None \<Rightarrow> True | Some cb \<Rightarrow> \<forall>h e. cb h e = None)"

text \<open>Inputs for the examples: a callback that only records, one that throws on a warning,
  one that throws on every report; empty tables; options and a context with nothing set.\<close>

definition recordingCallback :: callback where
  "recordingCallback = (\<lambda>h e. None)"

definition strictCallback :: callback where
  "strictCallback = (\<lambda>h e. if severity e = WARNING then Some (Exn ''strict'') else None)"

definition throwingCallback :: callback where
  "throwingCallback = (\<lambda>h e. Some (Exn ''boom''))"

definition noTables :: tables where
  "noTables = \<lparr>langsCodes1 = [], langsAll = [], langsWhere = (\<lambda>crit v. None),
               countryCodes = [], countryGetCode = (\<lambda>v. None)\<rparr>"

definition noOptions :: options where
  "noOptions =
     \<lparr>title = None, author = None, authors = None, description = None, keywordList = None,
      date = None, abstract = None, lang = None, language = None, region = None,
      useH1AsTitle = False, optOnError = None\<rparr>"

text \<open>Metadata with no field set.\<close>

definition noMetadata :: document_metadata where
  "noMetadata = \<lparr>metaTitle = [], metaAuthors = [], metaDescription = None, metaKeywords = None,
                  metaDate = None, metaAbstract = None, metaLang = None, metaRegion = None\<rparr>"

definition emptyContext :: render_context where
  "emptyContext =
     \<lparr>definitions = Map.empty, footnoteDefinitions = Map.empty, onError = None,
      tex2typst = (\<lambda>latex. Inr latex)\<rparr>"

text \<open>A parser that gives the tree \<open>t\<close> for every text, with a decoder and a converter that
  give their input back.\<close>

definition treeOnly :: "block list \<Rightarrow> externals" where
  "treeOnly t =
     \<lparr>parseTree = (\<lambda>markdown. Inr t), parseYaml = (\<lambda>text. Inr (YStr text)),
      texToTypst = (\<lambda>latex. Inr latex), lookupTables = noTables\<rparr>"

text \<open>A statement that returns from every state.\<close>

definition returns :: "'a m \<Rightarrow> bool" where
  "returns c = (\<forall>s. \<exists>r t. c s = (Inr r, t))"

text \<open>The state after one more report, when there is a callback to report to.\<close>

definition noted :: "callback option \<Rightarrow> conv_error \<Rightarrow> rstate \<Rightarrow> rstate" where
  "noted cbo w s = (case cbo of None \<Rightarrow> s | Some cb \<Rightarrow> s\<lparr>reported := reported s @ [w]\<rparr>)"

text \<open>
  Two statements agree when, started in states with the same image flag, they give the same
  result (a value or a thrown value) and leave the same image flag. The reports made may differ.
\<close>

definition agree :: "'a m \<Rightarrow> 'a m \<Rightarrow> bool" where
  "agree c1 c2 =
     (\<forall>s1 s2. externalImages s1 = externalImages s2 \<longrightarrow>
        fst (c1 s1) = fst (c2 s2) \<and> externalImages (snd (c1 s1)) = externalImages (snd (c2 s2)))"

text \<open>A statement that never clears the image flag.\<close>

definition keepsFlag :: "'a m \<Rightarrow> bool" where
  "keepsFlag c = (\<forall>s. externalImages s \<longrightarrow> externalImages (snd (c s)))"

text \<open>Two contexts that differ at most in their callbacks, both of which return.\<close>

definition sameButCallback :: "render_context \<Rightarrow> render_context \<Rightarrow> bool" where
  "sameButCallback ctx1 ctx2 =
     (returnsNormally (onError ctx1) \<and> returnsNormally (onError ctx2)
      \<and> definitions ctx1 = definitions ctx2
      \<and> footnoteDefinitions ctx1 = footnoteDefinitions ctx2
      \<and> tex2typst ctx1 = tex2typst ctx2)"

text \<open>
  An image with a remote URL somewhere in phrasing content, and somewhere in a block (the
  children of footnote definitions, list items, quotes and table cells included).
\<close>

fun inlineHasRemote :: "inline \<Rightarrow> bool" where
  "inlineHasRemote (Image u) = isExternal u"
| "inlineHasRemote (Strong cs) = (\<exists>c \<in> set cs. inlineHasRemote c)"
| "inlineHasRemote (Emphasis cs) = (\<exists>c \<in> set cs. inlineHasRemote c)"
| "inlineHasRemote (Delete cs) = (\<exists>c \<in> set cs. inlineHasRemote c)"
| "inlineHasRemote (Mark cs) = (\<exists>c \<in> set cs. inlineHasRemote c)"
| "inlineHasRemote (Subscript cs) = (\<exists>c \<in> set cs. inlineHasRemote c)"
| "inlineHasRemote (Superscript cs) = (\<exists>c \<in> set cs. inlineHasRemote c)"
| "inlineHasRemote (Link u cs) = (\<exists>c \<in> set cs. inlineHasRemote c)"
| "inlineHasRemote (LinkReference ident lbl cs) = (\<exists>c \<in> set cs. inlineHasRemote c)"
| "inlineHasRemote _ = False"

fun blockHasRemote :: "block \<Rightarrow> bool" where
  "blockHasRemote (FootnoteDefinition ident children) = (\<exists>c \<in> set children. blockHasRemote c)"
| "blockHasRemote (Heading depth cs) = (\<exists>c \<in> set cs. inlineHasRemote c)"
| "blockHasRemote (Paragraph cs) = (\<exists>c \<in> set cs. inlineHasRemote c)"
| "blockHasRemote (List ordered items) = (\<exists>item \<in> set items. \<exists>c \<in> set item. blockHasRemote c)"
| "blockHasRemote (Blockquote children) = (\<exists>c \<in> set children. blockHasRemote c)"
| "blockHasRemote (Table algn rows) =
     (\<exists>row \<in> set rows. \<exists>cell \<in> set row. \<exists>c \<in> set cell. inlineHasRemote c)"
| "blockHasRemote _ = False"

text \<open>No footnote definition of the map holds a remote image.\<close>

definition footnotesClean :: "(string \<Rightarrow> block list option) \<Rightarrow> bool" where
  "footnotesClean fns = (\<forall>k cs. fns k = Some cs \<longrightarrow> (\<forall>c \<in> set cs. \<not> blockHasRemote c))"

text \<open>
  A remote image at a place of a block that the renderer reaches without looking up a footnote:
  not in a footnote definition, not in a paragraph that stands for the table of contents, not
  in a table without rows or without header cells.
\<close>

fun blockShowsRemote :: "(string \<Rightarrow> def_node option) \<Rightarrow> block \<Rightarrow> bool" where
  "blockShowsRemote defs (Heading depth cs) = (\<exists>c \<in> set cs. inlineHasRemote c)"
| "blockShowsRemote defs (Paragraph cs) =
     (toLowerCase (trim (plainTextFromPhrasing cs defs)) \<noteq> ''[toc]''
      \<and> (\<exists>c \<in> set cs. inlineHasRemote c))"
| "blockShowsRemote defs (List ordered items) =
     (\<exists>item \<in> set items. \<exists>c \<in> set item. blockShowsRemote defs c)"
| "blockShowsRemote defs (Blockquote children) = (\<exists>c \<in> set children. blockShowsRemote defs c)"
| "blockShowsRemote defs (Table algn rows) =
     (rows \<noteq> [] \<and> hd rows \<noteq> []
      \<and> (\<exists>row \<in> set rows. \<exists>cell \<in> set row. \<exists>c \<in> set cell. inlineHasRemote c))"
| "blockShowsRemote defs _ = False"

text \<open>The helper preamble for remote images, as \<open>buildWarningsSection\<close> writes it.\<close>

definition externalImagePreamble :: string where
  "externalImagePreamble = the (buildWarningsSection \<lparr>reported = [], externalImages = True\<rparr>)"

text \<open>A statement that never sets the image flag, and one that always leaves it set.\<close>

definition staysClear :: "'a m \<Rightarrow> bool" where
  "staysClear c = (\<forall>s. \<not> externalImages s \<longrightarrow> \<not> externalImages (snd (c s)))"

definition setsFlag :: "'a m \<Rightarrow> bool" where
  "setsFlag c = (\<forall>s. externalImages (snd (c s)))"

section \<open>The fence of a code block\<close>

lemma sublist_replicate_split:
  assumes "c \<noteq> a" and "sublist (replicate n a) (xs @ c # ys)"
  shows "sublist (replicate n a) xs \<or> sublist (replicate n a) ys"
proof -
  from assms(2) obtain ps ss where eq: "xs @ c # ys = ps @ replicate n a @ ss"
    by (auto simp: sublist_def)
  then consider (left) us where "xs = ps @ us" "us @ c # ys = replicate n a @ ss"
    | (right) us where "xs @ us = ps" "c # ys = us @ replicate n a @ ss"
    by (auto simp: append_eq_append_conv2)
  then show ?thesis
  proof cases
    case left
    from left(2) consider (l2) vs where "us = replicate n a @ vs"
      | (r2) vs where "us @ vs = replicate n a" "c # ys = vs @ ss"
      by (auto simp: append_eq_append_conv2)
    then show ?thesis
    proof cases
      case l2
      with left(1) show ?thesis by (auto simp: sublist_def)
    next
      case r2
      show ?thesis
      proof (cases vs)
        case Nil
        with r2 left(1) have "xs = ps @ replicate n a @ []" by simp
        then show ?thesis unfolding sublist_def by blast
      next
        case (Cons v vs')
        with r2 have "c \<in> set (replicate n a)"
          by (metis append_Cons in_set_conv_decomp list.inject)
        with assms(1) show ?thesis by auto
      qed
    qed
  next
    case right
    show ?thesis
    proof (cases us)
      case Nil
      with right(2) have "c # ys = replicate n a @ ss" by simp
      then show ?thesis
      proof (cases n)
        case 0
        then show ?thesis by simp
      next
        case (Suc k)
        with \<open>c # ys = replicate n a @ ss\<close> assms(1) show ?thesis by simp
      qed
    next
      case (Cons u us')
      with right(2) have "ys = us' @ replicate n a @ ss" by simp
      then show ?thesis unfolding sublist_def by blast
    qed
  qed
qed

lemma maxBacktickRun_loop_ge: "maxRun \<le> maxBacktickRun_loop cs maxRun run"
proof (induction cs arbitrary: maxRun run)
  case Nil
  show ?case by simp
next
  case (Cons c cs)
  show ?case
  proof (cases "c = BTICK")
    case True
    have "maxRun \<le> (if run + 1 > maxRun then run + 1 else maxRun)" by simp
    also have "\<dots> \<le> maxBacktickRun_loop cs (if run + 1 > maxRun then run + 1 else maxRun) (run + 1)"
      by (rule Cons.IH)
    finally show ?thesis using True by (auto simp: Let_def split: if_splits)
  next
    case False
    then show ?thesis using Cons.IH[of maxRun 0] by simp
  qed
qed

lemma sublist_replicate_le:
  "sublist (replicate n a) (replicate r a) \<Longrightarrow> n \<le> r"
  by (auto simp: sublist_def dest!: arg_cong[where f = length])

lemma maxBacktickRun_loop_run:
  "run \<le> maxRun \<Longrightarrow> sublist (replicate n BTICK) (replicate run BTICK @ cs)
     \<Longrightarrow> n \<le> maxBacktickRun_loop cs maxRun run"
proof (induction cs arbitrary: maxRun run)
  case Nil
  then have "n \<le> run" by (simp add: sublist_replicate_le)
  with Nil show ?case by simp
next
  case (Cons c cs)
  show ?case
  proof (cases "c = BTICK")
    case True
    have eq: "replicate run BTICK @ c # cs = replicate (run + 1) BTICK @ cs"
      using True by (simp add: replicate_app_Cons_same)
    have "n \<le> maxBacktickRun_loop cs (if run + 1 > maxRun then run + 1 else maxRun) (run + 1)"
      by (rule Cons.IH) (use Cons.prems eq in auto)
    then show ?thesis using True by (auto simp: Let_def split: if_splits)
  next
    case False
    from sublist_replicate_split[OF False Cons.prems(2)]
    show ?thesis
    proof
      assume "sublist (replicate n BTICK) (replicate run BTICK)"
      then have "n \<le> run" by (rule sublist_replicate_le)
      also have "run \<le> maxRun" by fact
      also have "maxRun \<le> maxBacktickRun_loop (c # cs) maxRun run"
        by (rule maxBacktickRun_loop_ge)
      finally show ?thesis .
    next
      assume "sublist (replicate n BTICK) cs"
      then have "n \<le> maxBacktickRun_loop cs maxRun 0"
        using Cons.IH[of 0 maxRun] by simp
      then show ?thesis using False by simp
    qed
  qed
qed

lemma maxBacktickRun_bounds_runs:
  "sublist (replicate n BTICK) v \<Longrightarrow> n \<le> maxBacktickRun v"
  unfolding maxBacktickRun_def using maxBacktickRun_loop_run[of 0 0 n v] by simp

lemma sublist_stripFinalNewline:
  assumes "sublist (replicate n BTICK) v"
  shows "sublist (replicate n BTICK) (stripFinalNewline v)"
proof (cases "v \<noteq> [] \<and> last v = NEWLINE")
  case True
  then have v: "v = butlast v @ NEWLINE # []" using append_butlast_last_id[of v] by simp
  have "sublist (replicate n BTICK) (butlast v @ NEWLINE # [])" using assms v by simp
  from sublist_replicate_split[OF _ this]
  have "sublist (replicate n BTICK) (butlast v) \<or> sublist (replicate n BTICK) []" by simp
  then have "sublist (replicate n BTICK) (butlast v)" by auto
  with True show ?thesis by (simp add: stripFinalNewline_def)
next
  case False
  with assms show ?thesis by (auto simp: stripFinalNewline_def)
qed

text \<open>
  C7. The fence of a code block is a run of backticks, at least three, and longer than every
  run of backticks in the code value; the opening line is the fence with the info string right
  after it, then come the code and the closing fence.
\<close>

theorem renderCodeBlock_fence:
  "3 \<le> length (codeFence node)
   \<and> codeFence node = replicate (length (codeFence node)) BTICK
   \<and> (\<forall>n. sublist (replicate n BTICK) (codeValue node) \<longrightarrow> n < length (codeFence node))
   \<and> renderCodeBlock node indentLevel =
       join [NEWLINE]
         [indentLines (codeFence node @ codeInfo node) indentLevel,
          indentLines (stripFinalNewline (codeValue node)) indentLevel,
          indentLines (codeFence node) indentLevel]"
proof (intro conjI allI impI)
  show "3 \<le> length (codeFence node)" by (simp add: codeFence_def)
  show "codeFence node = replicate (length (codeFence node)) BTICK" by (simp add: codeFence_def)
  show "renderCodeBlock node indentLevel =
       join [NEWLINE]
         [indentLines (codeFence node @ codeInfo node) indentLevel,
          indentLines (stripFinalNewline (codeValue node)) indentLevel,
          indentLines (codeFence node) indentLevel]"
    by (simp add: renderCodeBlock_def Let_def)
next
  fix n
  assume "sublist (replicate n BTICK) (codeValue node)"
  then have "sublist (replicate n BTICK) (stripFinalNewline (codeValue node))"
    by (rule sublist_stripFinalNewline)
  then have "n \<le> maxBacktickRun (stripFinalNewline (codeValue node))"
    by (rule maxBacktickRun_bounds_runs)
  then show "n < length (codeFence node)" by (simp add: codeFence_def)
qed

theorem renderCodeBlock_fence_witness:
  "sublist (replicate 2 BTICK) (codeValue \<lparr>codeLang = Some ''js'', codeValue = ''a``b''\<rparr>)
   \<and> (2::nat) < length (codeFence \<lparr>codeLang = Some ''js'', codeValue = ''a``b''\<rparr>)
   \<and> renderCodeBlock \<lparr>codeLang = Some ''js'', codeValue = ''a``b''\<rparr> 0
       = ''```js'' @ [NEWLINE] @ ''a``b'' @ [NEWLINE] @ ''```''"
proof -
  have h: "sublist (replicate 2 BTICK) (codeValue \<lparr>codeLang = Some ''js'', codeValue = ''a``b''\<rparr>)"
    by (simp add: sublist_code numeral_2_eq_2)
  from renderCodeBlock_fence[of "\<lparr>codeLang = Some ''js'', codeValue = ''a``b''\<rparr>" 0] h
  have "(2::nat) < length (codeFence \<lparr>codeLang = Some ''js'', codeValue = ''a``b''\<rparr>)"
    by blast
  moreover have "renderCodeBlock \<lparr>codeLang = Some ''js'', codeValue = ''a``b''\<rparr> 0
       = ''```js'' @ [NEWLINE] @ ''a``b'' @ [NEWLINE] @ ''```''"
    by code_simp
  ultimately show ?thesis using h by blast
qed

section \<open>The date directive\<close>

lemma split_not_Nil: "split c s \<noteq> []"
  by (induction s) (auto split: list.splits)

lemma join_Cons: "ws \<noteq> [] \<Longrightarrow> join sep (w # ws) = w @ sep @ join sep ws"
  by (cases ws) auto

lemma join_split: "join [c] (split c s) = s"
proof (induction s)
  case Nil
  show ?case by simp
next
  case (Cons x xs)
  show ?case
  proof (cases "x = c")
    case True
    then show ?thesis using Cons split_not_Nil[of c xs] by (simp add: join_Cons)
  next
    case False
    obtain w ws where sp: "split c xs = w # ws"
      using split_not_Nil[of c xs] by (cases "split c xs") auto
    show ?thesis
    proof (cases ws)
      case Nil
      with sp Cons False show ?thesis by simp
    next
      case (Cons v vs)
      with sp Cons.IH False show ?thesis by simp
    qed
  qed
qed

lemma isoMatch_Some:
  assumes "isoMatch s = Some (y, m, d)"
  shows "s = y @ ''-'' @ m @ ''-'' @ d \<and> length y = 4 \<and> list_all isDigit y
         \<and> (length m = 1 \<or> length m = 2) \<and> list_all isDigit m
         \<and> (length d = 1 \<or> length d = 2) \<and> list_all isDigit d"
proof -
  from assms have sp: "split CHR ''-'' s = [y, m, d]"
    and rest: "length y = 4 \<and> list_all isDigit y
         \<and> (length m = 1 \<or> length m = 2) \<and> list_all isDigit m
         \<and> (length d = 1 \<or> length d = 2) \<and> list_all isDigit d"
    by (auto simp: isoMatch_def split: list.splits if_splits)
  from join_split[of "CHR ''-''" s] sp have "s = y @ ''-'' @ m @ ''-'' @ d" by simp
  with rest show ?thesis by blast
qed

lemma dateArg_returns: "dateArg ctx d s = (Inr (''date: '' @ parseDate d), s)"
  by (simp add: dateArg_def tryCatch_def mreturn_def)


lemma metadataSection_state: "snd (metadataSection ctx md s) = s"
  by (simp add: metadataSection_def Let_def tryCatch_def mbind_def mreturn_def dateArg_returns)

text \<open>
  C4. An ISO date gives the \<open>datetime\<close> constructor, \<open>auto\<close> and \<open>none\<close> are kept, and a text that
  is no date gives \<open>auto\<close>; but for such a text the state is left as it was: no warning is
  reported, whatever the callback.
\<close>

theorem unparseable_date_no_warning:
  "parseDate ''2024-01-15'' = ''datetime(day: 15, month: 1, year: 2024)''
   \<and> parseDate ''auto'' = ''auto''
   \<and> parseDate ''none'' = ''none''
   \<and> parseDate ''not-a-date'' = ''auto''
   \<and> dateArg ctx ''not-a-date'' s = (Inr ''date: auto'', s)
   \<and> snd (metadataSection ctx md s) = s"
proof -
  have 1: "parseDate ''2024-01-15'' = ''datetime(day: 15, month: 1, year: 2024)''" by code_simp
  have 2: "parseDate ''auto'' = ''auto''" by code_simp
  have 3: "parseDate ''none'' = ''none''" by code_simp
  have 4: "parseDate ''not-a-date'' = ''auto''" by code_simp
  have 5: "dateArg ctx ''not-a-date'' s = (Inr ''date: auto'', s)"
    using dateArg_returns[of ctx "''not-a-date''" s] 4 by simp
  from 1 2 3 4 5 metadataSection_state show ?thesis by blast
qed

section \<open>Merging the metadata\<close>

text \<open>
  C2 (amended). The title is the option's, else the frontmatter's, else the leading heading's,
  else empty. For description, keywords, date, abstract and region an option that is set wins
  over the frontmatter, and so does \<open>lang\<close> before \<open>language\<close> before the frontmatter for the
  language. For the authors the option wins only when its list is not empty.
\<close>

theorem mergeMetadata_precedence:
  "metaTitle (mergeMetadata tb opts fm leadingTitle) =
     (case title opts of Some t \<Rightarrow> t
      | None \<Rightarrow> (case title fm of Some t \<Rightarrow> t
                 | None \<Rightarrow> (case leadingTitle of Some t \<Rightarrow> t | None \<Rightarrow> [])))
   \<and> (description opts \<noteq> None \<longrightarrow>
        metaDescription (mergeMetadata tb opts fm leadingTitle) = description opts)
   \<and> (description opts = None \<longrightarrow>
        metaDescription (mergeMetadata tb opts fm leadingTitle) = description fm)
   \<and> (keywordList opts \<noteq> None \<longrightarrow>
        metaKeywords (mergeMetadata tb opts fm leadingTitle) = keywordList opts)
   \<and> (keywordList opts = None \<longrightarrow>
        metaKeywords (mergeMetadata tb opts fm leadingTitle) = keywordList fm)
   \<and> (date opts \<noteq> None \<longrightarrow> metaDate (mergeMetadata tb opts fm leadingTitle) = date opts)
   \<and> (date opts = None \<longrightarrow> metaDate (mergeMetadata tb opts fm leadingTitle) = date fm)
   \<and> (abstract opts \<noteq> None \<longrightarrow>
        metaAbstract (mergeMetadata tb opts fm leadingTitle) = abstract opts)
   \<and> (abstract opts = None \<longrightarrow>
        metaAbstract (mergeMetadata tb opts fm leadingTitle) = abstract fm)
   \<and> (region opts \<noteq> None \<longrightarrow>
        metaRegion (mergeMetadata tb opts fm leadingTitle) = coerceRegion tb (region opts))
   \<and> (region opts = None \<longrightarrow>
        metaRegion (mergeMetadata tb opts fm leadingTitle) = coerceRegion tb (region fm))
   \<and> (lang opts \<noteq> None \<longrightarrow>
        metaLang (mergeMetadata tb opts fm leadingTitle) = coerceLanguage tb (lang opts))
   \<and> (lang opts = None \<and> language opts \<noteq> None \<longrightarrow>
        metaLang (mergeMetadata tb opts fm leadingTitle) = coerceLanguage tb (language opts))
   \<and> (lang opts = None \<and> language opts = None \<longrightarrow>
        metaLang (mergeMetadata tb opts fm leadingTitle)
          = coerceLanguage tb (case lang fm of Some l \<Rightarrow> Some l | None \<Rightarrow> language fm))
   \<and> (authorList opts \<noteq> [] \<longrightarrow>
        metaAuthors (mergeMetadata tb opts fm leadingTitle) = authorList opts)
   \<and> (authorList opts = [] \<longrightarrow>
        metaAuthors (mergeMetadata tb opts fm leadingTitle) = authorList fm)"
  by (auto simp: mergeMetadata_def Let_def orElse_def split: option.splits)

theorem mergeMetadata_precedence_witness:
  "metaTitle (mergeMetadata noTables (noOptions\<lparr>title := Some ''B'', description := Some ''d''\<rparr>)
               (emptyFrontmatter\<lparr>title := Some ''A'', description := Some ''e''\<rparr>) (Some ''H'')) = ''B''
   \<and> metaDescription (mergeMetadata noTables (noOptions\<lparr>title := Some ''B'', description := Some ''d''\<rparr>)
               (emptyFrontmatter\<lparr>title := Some ''A'', description := Some ''e''\<rparr>) (Some ''H'')) = Some ''d''
   \<and> metaAuthors (mergeMetadata noTables (noOptions\<lparr>title := Some ''B'', description := Some ''d''\<rparr>)
               (emptyFrontmatter\<lparr>title := Some ''A'', description := Some ''e''\<rparr>) (Some ''H'')) = []"
  using mergeMetadata_precedence[of noTables "noOptions\<lparr>title := Some ''B'', description := Some ''d''\<rparr>"
      "emptyFrontmatter\<lparr>title := Some ''A'', description := Some ''e''\<rparr>" "Some ''H''"]
  by (simp add: noOptions_def emptyFrontmatter_def authorList_def)

theorem empty_option_authors_counterexample:
  "metaAuthors (mergeMetadata noTables (noOptions\<lparr>authors := Some []\<rparr>)
                  (emptyFrontmatter\<lparr>authors := Some [''X'']\<rparr>) None) = [''X'']"
  by (simp add: mergeMetadata_def Let_def authorList_def noOptions_def emptyFrontmatter_def)

section \<open>Reports and statements that return\<close>

lemma report_None [simp]: "report None err s = (Inr (), s)"
  by (simp add: report_def)

lemma report_Some:
  "report (Some cb) err s =
     (case cb (reported s) err of
        None \<Rightarrow> (Inr (), s\<lparr>reported := reported s @ [err]\<rparr>)
      | Some e \<Rightarrow> (Inl e, s\<lparr>reported := reported s @ [err]\<rparr>))"
  by (simp add: report_def)

lemma report_returnsNormally:
  "returnsNormally cbo \<Longrightarrow> report cbo w s = (Inr (), noted cbo w s)"
  by (cases cbo) (auto simp: returnsNormally_def noted_def report_Some)

lemma returns_mreturn [intro!, simp]: "returns (mreturn x)"
  by (simp add: returns_def mreturn_def)

lemma returns_mbind [intro!]:
  "returns c \<Longrightarrow> (\<And>x. returns (f x)) \<Longrightarrow> returns (mbind c f)"
  unfolding returns_def mbind_def
proof
  fix s
  assume c: "\<forall>s. \<exists>r t. c s = (Inr r, t)" and f: "\<And>x. \<forall>s. \<exists>r t. f x s = (Inr r, t)"
  from c obtain r t where "c s = (Inr r, t)" by blast
  moreover from f obtain r' t' where "f r t = (Inr r', t')" by blast
  ultimately show "\<exists>r t. (case c s of (Inl e, s') \<Rightarrow> (Inl e, s') | (Inr x, s') \<Rightarrow> f x s') = (Inr r, t)"
    by simp
qed

lemma returns_tryCatch [intro!]:
  "(\<And>e. returns (h e)) \<Longrightarrow> returns (tryCatch c h)"
  unfolding returns_def tryCatch_def
proof
  fix s
  assume h: "\<And>e. \<forall>s. \<exists>r t. h e s = (Inr r, t)"
  obtain r s' where cs: "c s = (r, s')" by (cases "c s")
  show "\<exists>r t. (case c s of (Inl e, s') \<Rightarrow> h e s' | (Inr x, s') \<Rightarrow> (Inr x, s')) = (Inr r, t)"
  proof (cases r)
    case (Inl e)
    from h obtain r' t' where "h e s' = (Inr r', t')" by blast
    with cs Inl show ?thesis by simp
  next
    case (Inr x)
    with cs show ?thesis by simp
  qed
qed

lemma returns_report [intro!]: "returnsNormally cbo \<Longrightarrow> returns (report cbo w)"
  by (simp add: returns_def report_returnsNormally)

lemma returns_mapM [intro!]:
  "(\<And>x. x \<in> set xs \<Longrightarrow> returns (f x)) \<Longrightarrow> returns (mapM f xs)"
  by (induction xs) auto

lemma returns_renderImage [intro!, simp]: "returns (renderImage u)"
  by (simp add: returns_def renderImage_def mreturn_def)

lemma returns_inline:
  assumes "returnsNormally (onError ctx)"
  shows "returns (renderInline rb ctx node)" and "returns (renderInlines rb ctx nodes)"
  using assms
proof (induction rb ctx node and rb ctx nodes rule: renderInline_renderInlines.induct)
  case (9 rb ctx ident)
  then show ?case by (auto split: option.splits)
next
  case (11 rb ctx v0 pos)
  then show ?case by (auto simp: Let_def)
next
  case (14 rb ctx ident lbl cs)
  then show ?case by (auto split: option.splits)
qed auto


lemmas eval_simps =
  emptyContext_def initialState_def recordingCallback_def strictCallback_def throwingCallback_def
  report_Some mbind_def mreturn_def mthrow_def tryCatch_def noted_def returnsNormally_def
  keepNonEmpty_def isNonEmpty_def trim_def isSpace_def toLowerCase_def lowerChar_def
  escapeTypstText_def fallbackLabel_def Let_def

section \<open>Duplicate definitions\<close>

lemma collectDefinitions_loop_append:
  "collectDefinitions_loop cbo (xs @ ys) defs s =
     (case collectDefinitions_loop cbo xs defs s of
        ((None, defs'), s') \<Rightarrow> collectDefinitions_loop cbo ys defs' s'
      | ((Some e, defs'), s') \<Rightarrow> ((Some e, defs'), s'))"
proof (induction xs arbitrary: defs s)
  case Nil
  show ?case by simp
next
  case (Cons x xs)
  show ?case
  proof (cases x)
    case (Definition d)
    show ?thesis
    proof (cases "if defs (toLowerCase (defIdentifier d)) \<noteq> None
                  then report cbo (duplicateDefinitionWarning d) s else (Inr (), s)")
      case (Pair r s')
      show ?thesis
      proof (cases r)
        case (Inl e)
        with Pair Definition show ?thesis by (simp add: Let_def)
      next
        case (Inr u)
        with Pair Definition Cons.IH show ?thesis by (simp add: Let_def fun_upd_def)
      qed
    qed
  qed (use Cons.IH in simp_all)
qed

lemma collectDefinitions_loop_fresh:
  assumes "\<forall>d \<in> set (defNodes nodes). defs (normId d) = None"
    and "distinct (map normId (defNodes nodes))"
  shows "\<exists>defs'. collectDefinitions_loop cbo nodes defs s = ((None, defs'), s)
           \<and> (\<forall>k. k \<notin> normId ` set (defNodes nodes) \<longrightarrow> defs' k = defs k)
           \<and> (\<forall>d \<in> set (defNodes nodes). defs' (normId d) = Some d)"
  using assms
proof (induction nodes arbitrary: defs)
  case Nil
  show ?case by simp
next
  case (Cons x rest)
  show ?case
  proof (cases x)
    case (Definition d)
    let ?defs1 = "defs(normId d \<mapsto> d)"
    from Cons.prems Definition have fresh_d: "defs (normId d) = None"
      and dist: "normId d \<notin> normId ` set (defNodes rest)"
      and pre2: "distinct (map normId (defNodes rest))"
      and fresh_rest: "\<forall>x \<in> set (defNodes rest). defs (normId x) = None"
      by auto
    have pre1: "\<forall>x \<in> set (defNodes rest). ?defs1 (normId x) = None"
    proof
      fix x assume x: "x \<in> set (defNodes rest)"
      then have "normId x \<in> normId ` set (defNodes rest)" by (rule imageI)
      with dist have "normId x \<noteq> normId d" by auto
      with fresh_rest x show "?defs1 (normId x) = None" by simp
    qed
    from Cons.IH[OF pre1 pre2]
    obtain defs' where step: "collectDefinitions_loop cbo rest ?defs1 s = ((None, defs'), s)"
      and keep: "\<forall>k. k \<notin> normId ` set (defNodes rest) \<longrightarrow> defs' k = ?defs1 k"
      and new: "\<forall>x \<in> set (defNodes rest). defs' (normId x) = Some x"
      by blast
    have "collectDefinitions_loop cbo (x # rest) defs s = ((None, defs'), s)"
      using fresh_d step Definition by (simp add: Let_def normId_def)
    moreover have "\<forall>k. k \<notin> normId ` set (defNodes (x # rest)) \<longrightarrow> defs' k = defs k"
      using keep Definition by auto
    moreover have "\<forall>y \<in> set (defNodes (x # rest)). defs' (normId y) = Some y"
      using new keep dist Definition by auto
    ultimately show ?thesis by blast
  qed (use Cons in simp_all)
qed




section \<open>Unresolved references\<close>

text \<open>
  C1 (amended). With no callback, or with one that returns from every call, rendering an inline
  node does not throw. A footnote reference with no definition renders as the empty string. A
  link reference with no definition renders as its rendered children, or, when that is empty,
  as the escaped label (the identifier when the label is absent or empty). In both cases one
  warning for the reference is passed to the callback, after those of the children.
\<close>

theorem unresolved_reference_fallback:
  assumes "returnsNormally (onError ctx)"
  shows "returns (renderInline rb ctx node)
    \<and> (footnoteDefinitions ctx (toLowerCase ident) = None \<longrightarrow>
         renderInline rb ctx (FootnoteReference ident) s
           = (Inr (Some []), noted (onError ctx) (footnoteWarning ident) s))
    \<and> (definitions ctx (toLowerCase ident) = None \<longrightarrow>
         (\<exists>label t. renderInlines rb ctx cs s = (Inr label, t)
            \<and> renderInline rb ctx (LinkReference ident lbl cs) s
                = (Inr (Some (if label \<noteq> [] then label
                              else escapeTypstText
                                     (case lbl of Some l \<Rightarrow> if l \<noteq> [] then l else ident
                                      | None \<Rightarrow> ident))),
                   noted (onError ctx) (linkReferenceWarning ident) t)))"
proof (intro conjI impI)
  show "returns (renderInline rb ctx node)" using assms by (rule returns_inline)
next
  assume "footnoteDefinitions ctx (toLowerCase ident) = None"
  then show "renderInline rb ctx (FootnoteReference ident) s
           = (Inr (Some []), noted (onError ctx) (footnoteWarning ident) s)"
    using assms by (simp add: mbind_def mreturn_def report_returnsNormally)
next
  assume nodef: "definitions ctx (toLowerCase ident) = None"
  from returns_inline(2)[OF assms, of rb cs]
  obtain label t where cs: "renderInlines rb ctx cs s = (Inr label, t)"
    unfolding returns_def by blast
  have "renderInline rb ctx (LinkReference ident lbl cs) s
          = (Inr (Some (fallbackLabel label ident lbl)),
             noted (onError ctx) (linkReferenceWarning ident) t)"
    using nodef cs assms
    by (simp add: mbind_def mreturn_def report_returnsNormally del: renderInlines.simps)
  with cs show "\<exists>label t. renderInlines rb ctx cs s = (Inr label, t)
            \<and> renderInline rb ctx (LinkReference ident lbl cs) s
                = (Inr (Some (if label \<noteq> [] then label
                              else escapeTypstText
                                     (case lbl of Some l \<Rightarrow> if l \<noteq> [] then l else ident
                                      | None \<Rightarrow> ident))),
                   noted (onError ctx) (linkReferenceWarning ident) t)"
    by (auto simp: fallbackLabel_def)
qed

theorem unresolved_reference_fallback_witness:
  "renderInline (renderFootnoteBlock 1 (emptyContext\<lparr>onError := Some recordingCallback\<rparr>))
       (emptyContext\<lparr>onError := Some recordingCallback\<rparr>) (FootnoteReference ''Missing'') initialState
     = (Inr (Some []), \<lparr>reported = [footnoteWarning ''Missing''], externalImages = False\<rparr>)
   \<and> renderInline (renderFootnoteBlock 1 (emptyContext\<lparr>onError := Some recordingCallback\<rparr>))
       (emptyContext\<lparr>onError := Some recordingCallback\<rparr>)
       (LinkReference ''Missing'' (Some ''Mis_sing'') []) initialState
     = (Inr (Some (''Mis'' @ [BSLASH] @ ''_sing'')),
        \<lparr>reported = [linkReferenceWarning ''Missing''], externalImages = False\<rparr>)"
proof -
  let ?ctx = "emptyContext\<lparr>onError := Some recordingCallback\<rparr>"
  have h: "returnsNormally (onError ?ctx)" by (simp add: eval_simps)
  have n1: "footnoteDefinitions ?ctx (toLowerCase ''Missing'') = None" by (simp add: eval_simps)
  have n2: "definitions ?ctx (toLowerCase ''Missing'') = None" by (simp add: eval_simps)
  have cs: "renderInlines (renderFootnoteBlock 1 ?ctx) ?ctx [] initialState = (Inr [], initialState)"
    by (simp add: eval_simps)
  from unresolved_reference_fallback[OF h, of "renderFootnoteBlock 1 ?ctx" "Text []" "''Missing''"
        initialState "[]" "Some ''Mis_sing''"] n1 n2 cs
  show ?thesis by (simp add: eval_simps)
qed

text \<open>
  An unresolved footnote reference renders as the empty string: the identifier is not in the
  output.
\<close>

theorem unresolved_footnote_renders_nothing:
  "renderInline (renderFootnoteBlock 1 emptyContext) emptyContext (FootnoteReference ''note'')
     initialState = (Inr (Some []), initialState)"
  by (simp add: eval_simps)

section \<open>Inline math\<close>



section \<open>Fault isolation in the block renderer\<close>

lemma mapM_append:
  "mapM f (xs @ ys) =
     mbind (mapM f xs) (\<lambda>rs. mbind (mapM f ys) (\<lambda>rs'. mreturn (rs @ rs')))"
proof (induction xs)
  case Nil
  show ?case
    by (rule ext) (simp add: mbind_def mreturn_def split: prod.splits sum.splits)
next
  case (Cons x xs)
  show ?case
    by (rule ext) (simp add: Cons mbind_def mreturn_def split: prod.splits sum.splits)
qed

lemma keepNonEmpty_append: "keepNonEmpty (xs @ ys) = keepNonEmpty xs @ keepNonEmpty ys"
  by (simp add: keepNonEmpty_def)

lemma keepNonEmpty_None: "keepNonEmpty (None # rs) = keepNonEmpty rs"
  by (simp add: keepNonEmpty_def isNonEmpty_def)




section \<open>The callback and the output\<close>

lemma agreeI:
  "(\<And>s1 s2. externalImages s1 = externalImages s2 \<Longrightarrow>
      fst (c1 s1) = fst (c2 s2) \<and> externalImages (snd (c1 s1)) = externalImages (snd (c2 s2)))
   \<Longrightarrow> agree c1 c2"
  by (simp add: agree_def)

lemma agreeD:
  "agree c1 c2 \<Longrightarrow> externalImages s1 = externalImages s2 \<Longrightarrow>
     fst (c1 s1) = fst (c2 s2) \<and> externalImages (snd (c1 s1)) = externalImages (snd (c2 s2))"
  by (simp add: agree_def)

lemma agree_mreturn [intro!, simp]: "agree (mreturn x) (mreturn x)"
  by (simp add: agree_def mreturn_def)

lemma agree_mthrow [intro!, simp]: "agree (mthrow e) (mthrow e)"
  by (simp add: agree_def mthrow_def)

lemma agree_mbind [intro!]:
  assumes c: "agree c1 c2" and f: "\<And>x. agree (f1 x) (f2 x)"
  shows "agree (mbind c1 f1) (mbind c2 f2)"
proof (rule agreeI)
  fix s1 s2 :: rstate
  assume flag: "externalImages s1 = externalImages s2"
  obtain r1 t1 where c1: "c1 s1 = (r1, t1)" by (cases "c1 s1")
  obtain r2 t2 where c2: "c2 s2 = (r2, t2)" by (cases "c2 s2")
  from agreeD[OF c flag] c1 c2 have r: "r1 = r2" and t: "externalImages t1 = externalImages t2"
    by simp_all
  show "fst (mbind c1 f1 s1) = fst (mbind c2 f2 s2)
        \<and> externalImages (snd (mbind c1 f1 s1)) = externalImages (snd (mbind c2 f2 s2))"
  proof (cases r1)
    case (Inl e)
    with c1 c2 r t show ?thesis by (auto simp: mbind_def)
  next
    case (Inr x)
    with c1 c2 r agreeD[OF f[of x] t] show ?thesis by (auto simp: mbind_def)
  qed
qed

lemma agree_tryCatch [intro!]:
  assumes c: "agree c1 c2" and h: "\<And>e. agree (h1 e) (h2 e)"
  shows "agree (tryCatch c1 h1) (tryCatch c2 h2)"
proof (rule agreeI)
  fix s1 s2 :: rstate
  assume flag: "externalImages s1 = externalImages s2"
  obtain r1 t1 where c1: "c1 s1 = (r1, t1)" by (cases "c1 s1")
  obtain r2 t2 where c2: "c2 s2 = (r2, t2)" by (cases "c2 s2")
  from agreeD[OF c flag] c1 c2 have r: "r1 = r2" and t: "externalImages t1 = externalImages t2"
    by simp_all
  show "fst (tryCatch c1 h1 s1) = fst (tryCatch c2 h2 s2)
        \<and> externalImages (snd (tryCatch c1 h1 s1)) = externalImages (snd (tryCatch c2 h2 s2))"
  proof (cases r1)
    case (Inl e)
    with c1 c2 r agreeD[OF h[of e] t] show ?thesis by (auto simp: tryCatch_def)
  next
    case (Inr x)
    with c1 c2 r t show ?thesis by (auto simp: tryCatch_def)
  qed
qed

lemma agree_report [intro!]:
  "returnsNormally cbo1 \<Longrightarrow> returnsNormally cbo2 \<Longrightarrow> agree (report cbo1 w1) (report cbo2 w2)"
  by (cases cbo1; cases cbo2) (auto simp: agree_def report_returnsNormally noted_def)

lemma agree_mapM [intro!]:
  "(\<And>x. x \<in> set xs \<Longrightarrow> agree (f1 x) (f2 x)) \<Longrightarrow> agree (mapM f1 xs) (mapM f2 xs)"
  by (induction xs) auto

lemma agree_renderImage [intro!, simp]: "agree (renderImage u) (renderImage u)"
  by (simp add: agree_def renderImage_def mreturn_def)

lemma agree_inline:
  assumes "sameButCallback ctx1 ctx2" and "\<And>child. agree (rb1 child) (rb2 child)"
  shows "agree (renderInline rb1 ctx1 node) (renderInline rb2 ctx2 node)"
    and "agree (renderInlines rb1 ctx1 nodes) (renderInlines rb2 ctx2 nodes)"
  using assms
proof (induction rb1 ctx1 node and rb1 ctx1 nodes rule: renderInline_renderInlines.induct)
  case (9 rb ctx ident)
  then show ?case by (auto simp: sameButCallback_def split: option.splits)
next
  case (11 rb ctx v0 pos)
  then show ?case by (auto simp: sameButCallback_def Let_def split: sum.splits)
next
  case (14 rb ctx ident lbl cs)
  then show ?case by (auto simp: sameButCallback_def split: option.splits)
qed auto


lemma agree_renderParagraph:
  assumes "sameButCallback ctx1 ctx2" and "\<And>child. agree (rb1 child) (rb2 child)"
  shows "agree (renderParagraph rb1 ctx1 cs) (renderParagraph rb2 ctx2 cs)"
  using agree_inline(2)[OF assms, where nodes = cs] assms(1)
  by (simp add: renderParagraph_def Let_def sameButCallback_def del: renderInlines.simps)

lemma agree_renderHeading:
  assumes "sameButCallback ctx1 ctx2" and "\<And>child. agree (rb1 child) (rb2 child)"
  shows "agree (renderHeading rb1 ctx1 depth cs lvl) (renderHeading rb2 ctx2 depth cs lvl)"
  using agree_inline(2)[OF assms, where nodes = cs]
  by (auto simp: renderHeading_def Let_def simp del: renderInlines.simps)

lemma agree_renderMathBlock:
  assumes "sameButCallback ctx1 ctx2"
  shows "agree (renderMathBlock ctx1 v lvl) (renderMathBlock ctx2 v lvl)"
  using assms by (auto simp: renderMathBlock_def Let_def sameButCallback_def split: sum.splits)

lemma agree_renderTable:
  assumes "sameButCallback ctx1 ctx2" and "\<And>child. agree (rb1 child) (rb2 child)"
  shows "agree (renderTable rb1 ctx1 algn rows lvl) (renderTable rb2 ctx2 algn rows lvl)"
proof -
  have cells: "\<And>cell. agree (renderInlines rb1 ctx1 cell) (renderInlines rb2 ctx2 cell)"
    using agree_inline(2)[OF assms] .
  from assms(1) have cb: "returnsNormally (onError ctx1)" "returnsNormally (onError ctx2)"
    by (simp_all add: sameButCallback_def)
  show ?thesis
    unfolding renderTable_def
    by (rule agree_tryCatch)
       (auto simp: Let_def cb cells simp del: renderInlines.simps split: list.splits)
qed

declare renderBlockWith.simps [simp del] renderListWith.simps [simp del]
  renderListItemWith.simps [simp del] renderBlockquoteWith.simps [simp del]

lemma agree_block:
  assumes "sameButCallback ctx1 ctx2" and "\<And>child. agree (rb1 child) (rb2 child)"
  shows "agree (renderBlockWith rb1 ctx1 node lvl) (renderBlockWith rb2 ctx2 node lvl)"
    and "agree (renderSwitchWith rb1 ctx1 node lvl) (renderSwitchWith rb2 ctx2 node lvl)"
    and "agree (renderListWith rb1 ctx1 ordered items lvl) (renderListWith rb2 ctx2 ordered items lvl)"
    and "agree (renderListItemWith rb1 ctx1 children marker lvl)
               (renderListItemWith rb2 ctx2 children marker lvl)"
    and "agree (renderBlockquoteWith rb1 ctx1 children lvl) (renderBlockquoteWith rb2 ctx2 children lvl)"
  using assms
proof (induction rb1 ctx1 node lvl and rb1 ctx1 node lvl and rb1 ctx1 ordered items lvl
         and rb1 ctx1 children marker lvl and rb1 ctx1 children lvl
         rule: renderBlockWith_renderSwitchWith_renderListWith_renderListItemWith_renderBlockquoteWith.induct)
  case (1 rb ctx node indentLevel)
  then show ?case by (auto simp: sameButCallback_def renderBlockWith.simps)
next
  case (5 rb ctx depth children indentLevel)
  then show ?case by (auto simp: agree_renderHeading)
next
  case (6 rb ctx children indentLevel)
  then show ?case by (auto simp: agree_renderParagraph)
next
  case (11 rb ctx algn rows indentLevel)
  then show ?case by (auto simp: agree_renderTable)
next
  case (12 rb ctx v indentLevel)
  then show ?case by (auto simp: agree_renderMathBlock)
next
  case (13 rb ctx t indentLevel)
  then show ?case by (auto simp: sameButCallback_def)
next
  case (14 rb ctx ordered items indentLevel)
  then show ?case by (auto simp: Let_def renderListWith.simps)
next
  case (15 rb ctx children marker indentLevel)
  then show ?case
    by (auto simp: Let_def agree_renderParagraph renderListItemWith.simps split: option.splits)
next
  case (16 rb ctx children indentLevel)
  then show ?case by (auto simp: Let_def renderBlockquoteWith.simps)
qed auto

lemma agree_renderFootnoteBlock:
  assumes "sameButCallback ctx1 ctx2"
  shows "agree (renderFootnoteBlock k ctx1 child) (renderFootnoteBlock k ctx2 child)"
proof (induction k arbitrary: child)
  case 0
  show ?case by simp
next
  case (Suc k)
  show ?case using agree_block(1)[OF assms Suc] by simp
qed

lemma agree_renderBlock:
  assumes "sameButCallback ctx1 ctx2"
  shows "agree (renderBlock k ctx1 node lvl) (renderBlock k ctx2 node lvl)"
  unfolding renderBlock_def
  by (rule agree_block(1)[OF assms agree_renderFootnoteBlock[OF assms]])

lemma agree_renderBody:
  assumes "sameButCallback ctx1 ctx2"
  shows "agree (renderBody k ctx1 nodes) (renderBody k ctx2 nodes)"
  unfolding renderBody_def by (auto simp: agree_renderBlock[OF assms])

lemma noted_flag [simp]: "externalImages (noted cbo w s) = externalImages s"
  by (cases cbo) (simp_all add: noted_def)

lemma collectDefinitions_loop_returns:
  assumes "returnsNormally cbo1" and "returnsNormally cbo2"
  shows "\<exists>defs' t1 t2.
           collectDefinitions_loop cbo1 nodes defs s1 = ((None, defs'), t1)
         \<and> collectDefinitions_loop cbo2 nodes defs s2 = ((None, defs'), t2)
         \<and> externalImages t1 = externalImages s1 \<and> externalImages t2 = externalImages s2"
proof (induction nodes arbitrary: defs s1 s2)
  case Nil
  show ?case by simp
next
  case (Cons x rest)
  show ?case
  proof (cases x)
    case (Definition d)
    let ?k = "toLowerCase (defIdentifier d)"
    let ?w = "duplicateDefinitionWarning d"
    show ?thesis
    proof (cases "defs ?k")
      case None
      with Definition Cons.IH[of "defs(?k \<mapsto> d)" s1 s2] show ?thesis
        by (simp add: Let_def fun_upd_def)
    next
      case (Some d0)
      from Cons.IH[of "defs(?k \<mapsto> d)" "noted cbo1 ?w s1" "noted cbo2 ?w s2"]
      show ?thesis using Some Definition assms
        by (simp add: Let_def report_returnsNormally fun_upd_def)
    qed
  qed (use Cons.IH in simp_all)
qed

lemma agree_collectDefinitions:
  assumes "returnsNormally cbo1" and "returnsNormally cbo2"
  shows "agree (collectDefinitions root cbo1) (collectDefinitions root cbo2)"
proof (rule agreeI)
  fix s1 s2 :: rstate
  assume flag: "externalImages s1 = externalImages s2"
  from collectDefinitions_loop_returns[OF assms, of root Map.empty s1 s2]
  obtain defs' t1 t2 where
    "collectDefinitions_loop cbo1 root Map.empty s1 = ((None, defs'), t1)"
    "collectDefinitions_loop cbo2 root Map.empty s2 = ((None, defs'), t2)"
    "externalImages t1 = externalImages s1" "externalImages t2 = externalImages s2"
    by blast
  with flag show "fst (collectDefinitions root cbo1 s1) = fst (collectDefinitions root cbo2 s2)
     \<and> externalImages (snd (collectDefinitions root cbo1 s1))
         = externalImages (snd (collectDefinitions root cbo2 s2))"
    by (simp add: collectDefinitions_def)
qed

lemma collectFootnotes_loop_returns:
  assumes "returnsNormally cbo1" and "returnsNormally cbo2"
  shows "\<exists>defs' t1 t2.
           collectFootnotes_loop cbo1 nodes defs s1 = ((None, defs'), t1)
         \<and> collectFootnotes_loop cbo2 nodes defs s2 = ((None, defs'), t2)
         \<and> externalImages t1 = externalImages s1 \<and> externalImages t2 = externalImages s2"
proof (induction nodes arbitrary: defs s1 s2)
  case Nil
  show ?case by simp
next
  case (Cons x rest)
  show ?case
  proof (cases x)
    case (FootnoteDefinition ident children)
    let ?k = "toLowerCase ident"
    let ?w = "duplicateFootnoteWarning ident"
    show ?thesis
    proof (cases "defs ?k")
      case None
      with FootnoteDefinition Cons.IH[of "defs(?k \<mapsto> children)" s1 s2]
      show ?thesis by (simp add: Let_def fun_upd_def)
    next
      case (Some d0)
      from Cons.IH[of "defs(?k \<mapsto> children)" "noted cbo1 ?w s1" "noted cbo2 ?w s2"]
      show ?thesis using Some FootnoteDefinition assms
        by (simp add: Let_def report_returnsNormally fun_upd_def)
    qed
  qed (use Cons.IH in simp_all)
qed

lemma agree_collectFootnotes:
  assumes "returnsNormally cbo1" and "returnsNormally cbo2"
  shows "agree (collectFootnotes root cbo1) (collectFootnotes root cbo2)"
proof (rule agreeI)
  fix s1 s2 :: rstate
  assume flag: "externalImages s1 = externalImages s2"
  from collectFootnotes_loop_returns[OF assms, of root Map.empty s1 s2]
  obtain defs' t1 t2 where
    "collectFootnotes_loop cbo1 root Map.empty s1 = ((None, defs'), t1)"
    "collectFootnotes_loop cbo2 root Map.empty s2 = ((None, defs'), t2)"
    "externalImages t1 = externalImages s1" "externalImages t2 = externalImages s2"
    by blast
  with flag show "fst (collectFootnotes root cbo1 s1) = fst (collectFootnotes root cbo2 s2)
     \<and> externalImages (snd (collectFootnotes root cbo1 s1))
         = externalImages (snd (collectFootnotes root cbo2 s2))"
    by (simp add: collectFootnotes_def)
qed

lemma agree_frontmatterFields:
  assumes "returnsNormally cbo1" and "returnsNormally cbo2"
  shows "agree (frontmatterFields kvs cbo1) (frontmatterFields kvs cbo2)"
  unfolding frontmatterFields_def Let_def
  by (rule agree_mbind) (auto simp: assms split: option.splits yaml.splits)

lemma agree_parseFrontmatter:
  assumes "returnsNormally cbo1" and "returnsNormally cbo2"
  shows "agree (parseFrontmatter py root cbo1) (parseFrontmatter py root cbo2)"
  unfolding parseFrontmatter_def parseFrontmatterYaml_def
  by (auto simp: assms agree_frontmatterFields split: option.splits sum.splits yaml.splits)

lemma agree_parseMarkdown:
  assumes "returnsNormally cbo1" and "returnsNormally cbo2"
  shows "agree (parseMarkdown parser markdown cbo1) (parseMarkdown parser markdown cbo2)"
  unfolding parseMarkdown_def
  by (auto simp: assms split: sum.splits)

lemma agree_metadataSection:
  assumes "sameButCallback ctx1 ctx2"
  shows "agree (metadataSection ctx1 md) (metadataSection ctx2 md)"
proof -
  from assms have cb: "returnsNormally (onError ctx1)" "returnsNormally (onError ctx2)"
    by (simp_all add: sameButCallback_def)
  show ?thesis
    unfolding metadataSection_def dateArg_def Let_def
    by (auto simp: cb)
qed

lemma buildWarningsSection_flag:
  "externalImages s1 = externalImages s2 \<Longrightarrow> buildWarningsSection s1 = buildWarningsSection s2"
  by (simp add: buildWarningsSection_def)

lemma agree_buildOutput:
  assumes "sameButCallback ctx1 ctx2"
  shows "agree (buildOutput k tree md idx ctx1) (buildOutput k tree md idx ctx2)"
proof -
  from assms have cb: "returnsNormally (onError ctx1)" "returnsNormally (onError ctx2)"
    by (simp_all add: sameButCallback_def)
  have last: "agree (\<lambda>s. (Inr (assembleOutput md parts0 (buildWarningsSection s) body), s))
                    (\<lambda>s. (Inr (assembleOutput md parts0 (buildWarningsSection s) body), s))"
    for parts0 body
    by (simp add: agree_def buildWarningsSection_def)
  show ?thesis
    unfolding buildOutput_def Let_def
    by (intro agree_tryCatch agree_mbind agree_renderBody[OF assms] agree_report cb agree_mthrow last)
       (auto simp: agree_metadataSection[OF assms])
qed

lemma mergeMetadata_optOnError:
  "mergeMetadata tb (opts\<lparr>optOnError := x\<rparr>) fm lt = mergeMetadata tb opts fm lt"
  by (simp add: mergeMetadata_def authorList_def cong del: option.case_cong_weak)

lemma agree_markdown2typst:
  assumes "returnsNormally cbo1" and "returnsNormally cbo2"
  shows "agree (markdown2typst ext k markdown (opts\<lparr>optOnError := cbo1\<rparr>))
               (markdown2typst ext k markdown (opts\<lparr>optOnError := cbo2\<rparr>))"
proof -
  have ctx: "sameButCallback
               \<lparr>definitions = defs, footnoteDefinitions = fns, onError = cbo1, tex2typst = texToTypst ext\<rparr>
               \<lparr>definitions = defs, footnoteDefinitions = fns, onError = cbo2, tex2typst = texToTypst ext\<rparr>"
    for defs fns using assms by (simp add: sameButCallback_def)
  have reset: "agree (\<lambda>s. c1 (s\<lparr>externalImages := False\<rparr>)) (\<lambda>s. c2 (s\<lparr>externalImages := False\<rparr>))"
    if "agree c1 c2" for c1 c2 :: "string m"
    using that by (simp add: agree_def)
  show ?thesis
    unfolding markdown2typst_def Let_def
    by (intro agree_tryCatch agree_mbind agree_report agree_mthrow assms)
       (simp_all add: assms agree_parseMarkdown agree_collectDefinitions agree_collectFootnotes
          agree_parseFrontmatter mergeMetadata_optOnError reset agree_buildOutput ctx)
qed


lemma plain_run:
  "markdown2typst (treeOnly [Paragraph [Text ''hello'', FootnoteReference ''x'']]) 1 []
     (noOptions\<lparr>optOnError := None\<rparr>) initialState = (Inr ''hello'', initialState)"
  by code_simp



section \<open>Remote images and the helper preamble\<close>

subsection \<open>No remote image, no flag\<close>

lemma staysClear_mreturn [intro!, simp]: "staysClear (mreturn x)"
  by (simp add: staysClear_def mreturn_def)

lemma staysClear_mthrow [intro!, simp]: "staysClear (mthrow e)"
  by (simp add: staysClear_def mthrow_def)

lemma staysClear_mbind [intro!]:
  "staysClear c \<Longrightarrow> (\<And>x. staysClear (f x)) \<Longrightarrow> staysClear (mbind c f)"
  unfolding staysClear_def mbind_def
  by (auto split: prod.splits sum.splits)

lemma staysClear_tryCatch [intro!]:
  "staysClear c \<Longrightarrow> (\<And>e. staysClear (h e)) \<Longrightarrow> staysClear (tryCatch c h)"
  unfolding staysClear_def tryCatch_def
  by (auto split: prod.splits sum.splits)

lemma staysClear_report [intro!, simp]: "staysClear (report cbo w)"
  by (auto simp: staysClear_def report_def split: option.splits)

lemma staysClear_mapM [intro!]:
  "(\<And>x. x \<in> set xs \<Longrightarrow> staysClear (f x)) \<Longrightarrow> staysClear (mapM f xs)"
  by (induction xs) auto

lemma staysClear_renderImage: "\<not> isExternal u \<Longrightarrow> staysClear (renderImage u)"
  by (simp add: renderImage_def)

lemma staysClear_inline:
  assumes "footnotesClean (footnoteDefinitions ctx)"
    and "\<And>child. \<not> blockHasRemote child \<Longrightarrow> staysClear (rb child)"
  shows "\<not> inlineHasRemote node \<Longrightarrow> staysClear (renderInline rb ctx node)"
    and "\<forall>n \<in> set nodes. \<not> inlineHasRemote n \<Longrightarrow> staysClear (renderInlines rb ctx nodes)"
  using assms
proof (induction rb ctx node and rb ctx nodes rule: renderInline_renderInlines.induct)
  case (9 rb ctx ident)
  then show ?case by (auto simp: footnotesClean_def split: option.splits)
next
  case (11 rb ctx v0 pos)
  then show ?case by (auto simp: Let_def split: sum.splits)
next
  case (12 rb ctx u)
  then show ?case by (auto simp: staysClear_renderImage)
next
  case (14 rb ctx ident lbl cs)
  then show ?case by (auto split: option.splits)
qed auto


lemma leadingParagraph_Some:
  "leadingParagraph children = Some (p, rest) \<Longrightarrow> children = Paragraph p # rest"
  by (induction children rule: leadingParagraph.induct) auto

lemma asList_Some: "asList child = Some (ordered, items) \<Longrightarrow> child = List ordered items"
  by (cases child) auto

lemma staysClear_renderParagraph:
  assumes "footnotesClean (footnoteDefinitions ctx)"
    and "\<And>child. \<not> blockHasRemote child \<Longrightarrow> staysClear (rb child)"
    and "\<forall>n \<in> set cs. \<not> inlineHasRemote n"
  shows "staysClear (renderParagraph rb ctx cs)"
  using staysClear_inline(2)[OF assms(1,2), where nodes = cs] assms(3)
  by (simp add: renderParagraph_def Let_def del: renderInlines.simps)

lemma staysClear_renderHeading:
  assumes "footnotesClean (footnoteDefinitions ctx)"
    and "\<And>child. \<not> blockHasRemote child \<Longrightarrow> staysClear (rb child)"
    and "\<forall>n \<in> set cs. \<not> inlineHasRemote n"
  shows "staysClear (renderHeading rb ctx depth cs lvl)"
  using staysClear_inline(2)[OF assms(1,2), where nodes = cs] assms(3)
  by (auto simp: renderHeading_def Let_def simp del: renderInlines.simps)

lemma staysClear_renderMathBlock: "staysClear (renderMathBlock ctx v lvl)"
  by (auto simp: renderMathBlock_def Let_def split: sum.splits)

lemma staysClear_renderTable:
  assumes "footnotesClean (footnoteDefinitions ctx)"
    and "\<And>child. \<not> blockHasRemote child \<Longrightarrow> staysClear (rb child)"
    and "\<forall>row \<in> set rows. \<forall>cell \<in> set row. \<forall>c \<in> set cell. \<not> inlineHasRemote c"
  shows "staysClear (renderTable rb ctx algn rows lvl)"
proof -
  have cells: "staysClear (renderInlines rb ctx cell)"
    if "\<forall>c \<in> set cell. \<not> inlineHasRemote c" for cell
    using staysClear_inline(2)[OF assms(1,2), where nodes = cell] that by simp
  show ?thesis
    unfolding renderTable_def
    by (rule staysClear_tryCatch)
       (use assms(3) in \<open>auto simp: Let_def cells simp del: renderInlines.simps split: list.splits\<close>)
qed

lemma clean_List:
  "List a b \<in> set children \<Longrightarrow> \<forall>c \<in> set children. \<not> blockHasRemote c
     \<Longrightarrow> \<forall>item \<in> set b. \<forall>c \<in> set item. \<not> blockHasRemote c"
  by fastforce

lemma staysClear_block:
  assumes "footnotesClean (footnoteDefinitions ctx)"
    and "\<And>child. \<not> blockHasRemote child \<Longrightarrow> staysClear (rb child)"
  shows "\<not> blockHasRemote node \<Longrightarrow> staysClear (renderBlockWith rb ctx node lvl)"
    and "\<not> blockHasRemote node \<Longrightarrow> staysClear (renderSwitchWith rb ctx node lvl)"
    and "\<forall>item \<in> set items. \<forall>c \<in> set item. \<not> blockHasRemote c
           \<Longrightarrow> staysClear (renderListWith rb ctx ordered items lvl)"
    and "\<forall>c \<in> set children. \<not> blockHasRemote c
           \<Longrightarrow> staysClear (renderListItemWith rb ctx children marker lvl)"
    and "\<forall>c \<in> set children. \<not> blockHasRemote c
           \<Longrightarrow> staysClear (renderBlockquoteWith rb ctx children lvl)"
  using assms
proof (induction rb ctx node lvl and rb ctx node lvl and rb ctx ordered items lvl
         and rb ctx children marker lvl and rb ctx children lvl
         rule: renderBlockWith_renderSwitchWith_renderListWith_renderListItemWith_renderBlockquoteWith.induct)
  case (1 rb ctx node indentLevel)
  then show ?case by (auto simp: renderBlockWith.simps)
next
  case (5 rb ctx depth children indentLevel)
  then show ?case by (auto simp: staysClear_renderHeading)
next
  case (6 rb ctx children indentLevel)
  then show ?case by (auto simp: staysClear_renderParagraph)
next
  case (11 rb ctx algn rows indentLevel)
  then show ?case by (auto simp: staysClear_renderTable)
next
  case (12 rb ctx v indentLevel)
  then show ?case by (auto simp: staysClear_renderMathBlock)
next
  case (14 rb ctx ordered items indentLevel)
  then show ?case by (auto simp: Let_def renderListWith.simps)
next
  case (15 rb ctx children marker indentLevel)
  note clean = "15.prems"(1) and fc = "15.prems"(2) and rbc = "15.prems"(3)
  show ?case
  proof (cases "leadingParagraph children")
    case None
    have child: "staysClear
        (case asList c of
           None \<Rightarrow> mbind (renderBlockWith rb ctx c (Suc indentLevel)) (\<lambda>r. mreturn (pushIfTruthy r))
         | Some (ordered, items) \<Rightarrow>
             mbind (renderListWith rb ctx ordered items (Suc indentLevel)) (\<lambda>r. mreturn [r]))"
      if c: "c \<in> set children" for c
    proof (cases "asList c")
      case asNone: None
      from clean c have "\<not> blockHasRemote c" by simp
      from "15.IH"(1)[OF refl refl None c asNone this fc rbc] asNone show ?thesis by auto
    next
      case (Some oi)
      obtain ordered items where oi: "oi = (ordered, items)" by (cases oi)
      from Some oi have "c = List ordered items" by (simp add: asList_Some)
      with clean c have "\<forall>item \<in> set items. \<forall>x \<in> set item. \<not> blockHasRemote x" by fastforce
      from "15.IH"(2)[OF refl refl None c Some oi[symmetric] this fc rbc] Some oi
      show ?thesis by auto
    qed
    show ?thesis
      using None child by (auto simp: Let_def renderListItemWith.simps)
  next
    case (Some pr)
    obtain p rest where pr: "pr = (p, rest)" by (cases pr)
    from Some pr have ch: "children = Paragraph p # rest" by (simp add: leadingParagraph_Some)
    with clean have p: "\<forall>n \<in> set p. \<not> inlineHasRemote n"
      and rest: "\<forall>c \<in> set rest. \<not> blockHasRemote c" by auto
    have par: "staysClear (renderParagraph rb ctx p)"
      using staysClear_renderParagraph[OF fc rbc p] by simp
    have child: "staysClear
        (case asList c of
           None \<Rightarrow> mbind (renderBlockWith rb ctx c (Suc indentLevel)) (\<lambda>r. mreturn (pushIfTruthy r))
         | Some (ordered, items) \<Rightarrow>
             mbind (renderListWith rb ctx ordered items (Suc indentLevel)) (\<lambda>r. mreturn [r]))"
      if c: "c \<in> set rest" for c
    proof (cases "asList c")
      case asNone: None
      from rest c have "\<not> blockHasRemote c" by simp
      from "15.IH"(3)[OF refl refl Some pr[symmetric] c asNone this fc rbc] asNone
      show ?thesis by auto
    next
      case asSome: (Some oi)
      obtain ordered items where oi: "oi = (ordered, items)" by (cases oi)
      from asSome oi have "c = List ordered items" by (simp add: asList_Some)
      with rest c have "\<forall>item \<in> set items. \<forall>x \<in> set item. \<not> blockHasRemote x" by fastforce
      from "15.IH"(4)[OF refl refl Some pr[symmetric] c asSome oi[symmetric] this fc rbc]
        asSome oi
      show ?thesis by auto
    qed
    show ?thesis
      using Some pr par child by (auto simp: Let_def renderListItemWith.simps)
  qed
next
  case (16 rb ctx children indentLevel)
  then show ?case by (auto simp: Let_def renderBlockquoteWith.simps)
qed auto

lemma staysClear_renderFootnoteBlock:
  assumes "footnotesClean (footnoteDefinitions ctx)"
  shows "\<not> blockHasRemote child \<Longrightarrow> staysClear (renderFootnoteBlock k ctx child)"
proof (induction k arbitrary: child)
  case 0
  show ?case by simp
next
  case (Suc k)
  from staysClear_block(1)[OF assms Suc.IH Suc.prems] show ?case by simp
qed

lemma staysClear_renderBlock:
  assumes "footnotesClean (footnoteDefinitions ctx)" and "\<not> blockHasRemote node"
  shows "staysClear (renderBlock k ctx node lvl)"
  unfolding renderBlock_def
  by (rule staysClear_block(1)[OF assms(1) staysClear_renderFootnoteBlock[OF assms(1)] assms(2)])

lemma staysClear_renderBody:
  assumes "footnotesClean (footnoteDefinitions ctx)" and "\<forall>n \<in> set nodes. \<not> blockHasRemote n"
  shows "staysClear (renderBody k ctx nodes)"
  unfolding renderBody_def using assms by (auto simp: staysClear_renderBlock)

lemma set_removeAt: "set (removeAt i xs) \<subseteq> set xs"
  by (auto simp: removeAt_def dest: in_set_takeD in_set_dropD)

lemma set_nodesForBody: "set (nodesForBody tree md idx) \<subseteq> set tree"
  using set_removeAt[of _ tree] by (auto simp: nodesForBody_def split: option.splits)

subsection \<open>The steps of buildOutput\<close>

lemma metadataSection_returns:
  "\<exists>parts0. metadataSection ctx md s = (Inr parts0, s)"
  by (simp add: metadataSection_def Let_def tryCatch_def mbind_def mreturn_def dateArg_returns)

lemma buildOutput_Inr:
  assumes "buildOutput k tree md idx ctx s = (Inr out, s')"
  shows "\<exists>body parts0.
           renderBody k ctx (nodesForBody tree md idx) s = (Inr body, s')
         \<and> out = assembleOutput md parts0 (buildWarningsSection s') body"
proof (cases "renderBody k ctx (nodesForBody tree md idx) s")
  case (Pair r s1)
  show ?thesis
  proof (cases r)
    case (Inl e)
    with Pair assms show ?thesis
      by (auto simp: buildOutput_def tryCatch_def mbind_def mthrow_def split: prod.splits sum.splits)
  next
    case (Inr body)
    obtain parts0 where md: "metadataSection ctx md s1 = (Inr parts0, s1)"
      using metadataSection_returns by blast
    from assms Pair Inr md show ?thesis
      by (auto simp: buildOutput_def tryCatch_def mbind_def mreturn_def split: if_splits)
  qed
qed

lemma buildWarningsSection_cases:
  "buildWarningsSection s = (if externalImages s then Some externalImagePreamble else None)"
  by (simp add: buildWarningsSection_def externalImagePreamble_def)

lemma externalImagePreamble_nonempty: "externalImagePreamble \<noteq> []"
  by (simp add: externalImagePreamble_def buildWarningsSection_def)

lemma assembleOutput_Some:
  "w \<noteq> [] \<Longrightarrow> assembleOutput md parts0 (Some w) body
     = join [NEWLINE] (headerParts md parts0 @ ['''', w] @ (if body \<noteq> [] then ['''', body] else []))"
  by (simp add: assembleOutput_def Let_def)

lemma assembleOutput_None:
  "assembleOutput md parts0 None body
     = (if headerParts md parts0 = [] then body
        else join [NEWLINE] (headerParts md parts0 @ (if body \<noteq> [] then ['''', body] else [])))"
  by (simp add: assembleOutput_def Let_def)

subsection \<open>The flag stays set\<close>

lemma keepsFlag_mreturn [intro!, simp]: "keepsFlag (mreturn x)"
  by (simp add: keepsFlag_def mreturn_def)

lemma keepsFlag_mthrow [intro!, simp]: "keepsFlag (mthrow e)"
  by (simp add: keepsFlag_def mthrow_def)

lemma keepsFlag_mbind [intro!]:
  "keepsFlag c \<Longrightarrow> (\<And>x. keepsFlag (f x)) \<Longrightarrow> keepsFlag (mbind c f)"
  unfolding keepsFlag_def mbind_def
  by (auto split: prod.splits sum.splits)

lemma keepsFlag_tryCatch [intro!]:
  "keepsFlag c \<Longrightarrow> (\<And>e. keepsFlag (h e)) \<Longrightarrow> keepsFlag (tryCatch c h)"
  unfolding keepsFlag_def tryCatch_def
  by (auto split: prod.splits sum.splits)

lemma keepsFlag_report [intro!, simp]: "keepsFlag (report cbo w)"
  by (auto simp: keepsFlag_def report_def split: option.splits)

lemma keepsFlag_mapM [intro!]:
  "(\<And>x. x \<in> set xs \<Longrightarrow> keepsFlag (f x)) \<Longrightarrow> keepsFlag (mapM f xs)"
  by (induction xs) auto

lemma keepsFlag_renderImage [intro!, simp]: "keepsFlag (renderImage u)"
  by (simp add: keepsFlag_def renderImage_def mreturn_def)

lemma keepsFlag_inline:
  assumes "\<And>child. keepsFlag (rb child)"
  shows "keepsFlag (renderInline rb ctx node)" and "keepsFlag (renderInlines rb ctx nodes)"
  using assms
proof (induction rb ctx node and rb ctx nodes rule: renderInline_renderInlines.induct)
  case (9 rb ctx ident)
  then show ?case by (auto split: option.splits)
next
  case (11 rb ctx v0 pos)
  then show ?case by (auto simp: Let_def split: sum.splits)
next
  case (14 rb ctx ident lbl cs)
  then show ?case by (auto split: option.splits)
qed auto

lemma keepsFlag_renderParagraph:
  assumes "\<And>child. keepsFlag (rb child)"
  shows "keepsFlag (renderParagraph rb ctx cs)"
  using keepsFlag_inline(2)[OF assms, where nodes = cs]
  by (simp add: renderParagraph_def Let_def del: renderInlines.simps)

lemma keepsFlag_renderHeading:
  assumes "\<And>child. keepsFlag (rb child)"
  shows "keepsFlag (renderHeading rb ctx depth cs lvl)"
  using keepsFlag_inline(2)[OF assms, where nodes = cs]
  by (auto simp: renderHeading_def Let_def simp del: renderInlines.simps)

lemma keepsFlag_renderMathBlock: "keepsFlag (renderMathBlock ctx v lvl)"
  by (auto simp: renderMathBlock_def Let_def split: sum.splits)

lemma keepsFlag_renderTable:
  assumes "\<And>child. keepsFlag (rb child)"
  shows "keepsFlag (renderTable rb ctx algn rows lvl)"
proof -
  have cells: "\<And>cell. keepsFlag (renderInlines rb ctx cell)"
    using keepsFlag_inline(2)[OF assms] .
  show ?thesis
    unfolding renderTable_def
    by (rule keepsFlag_tryCatch)
       (auto simp: Let_def cells simp del: renderInlines.simps split: list.splits)
qed

lemma keepsFlag_block:
  assumes "\<And>child. keepsFlag (rb child)"
  shows "keepsFlag (renderBlockWith rb ctx node lvl)"
    and "keepsFlag (renderSwitchWith rb ctx node lvl)"
    and "keepsFlag (renderListWith rb ctx ordered items lvl)"
    and "keepsFlag (renderListItemWith rb ctx children marker lvl)"
    and "keepsFlag (renderBlockquoteWith rb ctx children lvl)"
  using assms
proof (induction rb ctx node lvl and rb ctx node lvl and rb ctx ordered items lvl
         and rb ctx children marker lvl and rb ctx children lvl
         rule: renderBlockWith_renderSwitchWith_renderListWith_renderListItemWith_renderBlockquoteWith.induct)
  case (1 rb ctx node indentLevel)
  then show ?case by (auto simp: renderBlockWith.simps)
next
  case (5 rb ctx depth children indentLevel)
  then show ?case by (auto simp: keepsFlag_renderHeading)
next
  case (6 rb ctx children indentLevel)
  then show ?case by (auto simp: keepsFlag_renderParagraph)
next
  case (11 rb ctx algn rows indentLevel)
  then show ?case by (auto simp: keepsFlag_renderTable)
next
  case (12 rb ctx v indentLevel)
  then show ?case by (auto simp: keepsFlag_renderMathBlock)
next
  case (14 rb ctx ordered items indentLevel)
  then show ?case by (auto simp: Let_def renderListWith.simps)
next
  case (15 rb ctx children marker indentLevel)
  then show ?case
    by (auto simp: Let_def keepsFlag_renderParagraph renderListItemWith.simps split: option.splits)
next
  case (16 rb ctx children indentLevel)
  then show ?case by (auto simp: Let_def renderBlockquoteWith.simps)
qed auto

lemma keepsFlag_renderFootnoteBlock: "keepsFlag (renderFootnoteBlock k ctx child)"
proof (induction k arbitrary: child)
  case 0
  show ?case by simp
next
  case (Suc k)
  from keepsFlag_block(1)[OF Suc] show ?case by simp
qed

lemma keepsFlag_renderBlock: "keepsFlag (renderBlock k ctx node lvl)"
  unfolding renderBlock_def by (rule keepsFlag_block(1)[OF keepsFlag_renderFootnoteBlock])

subsection \<open>The block renderer returns\<close>

lemma returns_renderParagraph:
  "returnsNormally (onError ctx) \<Longrightarrow> returns (renderParagraph rb ctx cs)"
  using returns_inline(2)[where nodes = cs and ctx = ctx and rb = rb]
  by (simp add: renderParagraph_def Let_def del: renderInlines.simps)

lemma returns_renderHeading:
  "returnsNormally (onError ctx) \<Longrightarrow> returns (renderHeading rb ctx depth cs lvl)"
  using returns_inline(2)[where nodes = cs and ctx = ctx and rb = rb]
  by (auto simp: renderHeading_def Let_def simp del: renderInlines.simps)

lemma returns_renderMathBlock:
  "returnsNormally (onError ctx) \<Longrightarrow> returns (renderMathBlock ctx v lvl)"
  by (auto simp: renderMathBlock_def Let_def)

lemma returns_renderTable:
  "returnsNormally (onError ctx) \<Longrightarrow> returns (renderTable rb ctx algn rows lvl)"
  by (auto simp: renderTable_def)

lemma returns_block:
  assumes "returnsNormally (onError ctx)"
  shows "returns (renderBlockWith rb ctx node lvl)"
    and "returns (renderSwitchWith rb ctx node lvl)"
    and "returns (renderListWith rb ctx ordered items lvl)"
    and "returns (renderListItemWith rb ctx children marker lvl)"
    and "returns (renderBlockquoteWith rb ctx children lvl)"
  using assms
proof (induction rb ctx node lvl and rb ctx node lvl and rb ctx ordered items lvl
         and rb ctx children marker lvl and rb ctx children lvl
         rule: renderBlockWith_renderSwitchWith_renderListWith_renderListItemWith_renderBlockquoteWith.induct)
  case (1 rb ctx node indentLevel)
  then show ?case by (auto simp: renderBlockWith.simps)
next
  case (5 rb ctx depth children indentLevel)
  then show ?case by (auto simp: returns_renderHeading)
next
  case (6 rb ctx children indentLevel)
  then show ?case by (auto simp: returns_renderParagraph)
next
  case (11 rb ctx algn rows indentLevel)
  then show ?case by (auto simp: returns_renderTable)
next
  case (12 rb ctx v indentLevel)
  then show ?case by (auto simp: returns_renderMathBlock)
next
  case (14 rb ctx ordered items indentLevel)
  then show ?case by (auto simp: Let_def renderListWith.simps)
next
  case (15 rb ctx children marker indentLevel)
  then show ?case
    by (auto simp: Let_def returns_renderParagraph renderListItemWith.simps split: option.splits)
next
  case (16 rb ctx children indentLevel)
  then show ?case by (auto simp: Let_def renderBlockquoteWith.simps)
qed auto

subsection \<open>A remote image that is rendered sets the flag\<close>

lemma setsFlag_mbind1:
  "setsFlag c \<Longrightarrow> (\<And>x. keepsFlag (f x)) \<Longrightarrow> setsFlag (mbind c f)"
  unfolding setsFlag_def keepsFlag_def mbind_def
proof
  fix s
  assume c: "\<forall>s. externalImages (snd (c s))"
    and f: "\<And>x. \<forall>s. externalImages s \<longrightarrow> externalImages (snd (f x s))"
  obtain r t where cs: "c s = (r, t)" by (cases "c s")
  with c have t: "externalImages t" by (metis snd_conv)
  show "externalImages (snd (case c s of (Inl e, s') \<Rightarrow> (Inl e, s') | (Inr x, s') \<Rightarrow> f x s'))"
    using cs t f by (cases r) auto
qed

lemma setsFlag_mbind2:
  "returns c \<Longrightarrow> (\<And>x. setsFlag (f x)) \<Longrightarrow> setsFlag (mbind c f)"
  unfolding setsFlag_def returns_def mbind_def
proof
  fix s
  assume c: "\<forall>s. \<exists>r t. c s = (Inr r, t)" and f: "\<And>x. \<forall>s. externalImages (snd (f x s))"
  from c obtain r t where "c s = (Inr r, t)" by blast
  with f show "externalImages (snd (case c s of (Inl e, s') \<Rightarrow> (Inl e, s') | (Inr x, s') \<Rightarrow> f x s'))"
    by simp
qed

lemma setsFlag_tryCatch:
  "setsFlag c \<Longrightarrow> (\<And>e. keepsFlag (h e)) \<Longrightarrow> setsFlag (tryCatch c h)"
  unfolding setsFlag_def keepsFlag_def tryCatch_def
proof
  fix s
  assume c: "\<forall>s. externalImages (snd (c s))"
    and h: "\<And>e. \<forall>s. externalImages s \<longrightarrow> externalImages (snd (h e s))"
  obtain r t where cs: "c s = (r, t)" by (cases "c s")
  with c have t: "externalImages t" by (metis snd_conv)
  show "externalImages (snd (case c s of (Inl e, s') \<Rightarrow> h e s' | (Inr x, s') \<Rightarrow> (Inr x, s')))"
    using cs t h by (cases r) auto
qed

lemma setsFlag_mapM:
  assumes "x \<in> set xs" and "setsFlag (f x)"
    and "\<And>y. y \<in> set xs \<Longrightarrow> returns (f y)"
    and "\<And>y. y \<in> set xs \<Longrightarrow> keepsFlag (f y)"
  shows "setsFlag (mapM f xs)"
  using assms
proof (induction xs)
  case Nil
  then show ?case by simp
next
  case (Cons a xs)
  have keep_rest: "keepsFlag (mapM f xs)" using Cons.prems(4) by (intro keepsFlag_mapM) simp
  show ?case
  proof (cases "x = a")
    case True
    have "setsFlag (mbind (f a) (\<lambda>y. mbind (mapM f xs) (\<lambda>ys. mreturn (y # ys))))"
      using True Cons.prems(2) keep_rest by (intro setsFlag_mbind1) auto
    then show ?thesis by simp
  next
    case False
    with Cons.prems(1) have x: "x \<in> set xs" by simp
    have rest: "setsFlag (mapM f xs)"
      using Cons.IH[OF x Cons.prems(2)] Cons.prems(3,4) by simp
    have "setsFlag (mbind (f a) (\<lambda>y. mbind (mapM f xs) (\<lambda>ys. mreturn (y # ys))))"
      using rest Cons.prems(3)[of a]
      by (intro setsFlag_mbind2 setsFlag_mbind1) auto
    then show ?thesis by simp
  qed
qed

lemma setsFlag_renderImage: "isExternal u \<Longrightarrow> setsFlag (renderImage u)"
  by (simp add: setsFlag_def renderImage_def)

lemma setsFlag_inline:
  assumes "returnsNormally (onError ctx)" and "\<And>child. keepsFlag (rb child)"
  shows "inlineHasRemote node \<Longrightarrow> setsFlag (renderInline rb ctx node)"
    and "\<exists>n \<in> set nodes. inlineHasRemote n \<Longrightarrow> setsFlag (renderInlines rb ctx nodes)"
  using assms
proof (induction rb ctx node and rb ctx nodes rule: renderInline_renderInlines.induct)
  case (1 rb ctx nodes)
  from "1.prems"(1) obtain n where n: "n \<in> set nodes" "inlineHasRemote n" by blast
  have "setsFlag (mapM (renderInline rb ctx) nodes)"
  proof (rule setsFlag_mapM[where f = "renderInline rb ctx", OF n(1)])
    show "setsFlag (renderInline rb ctx n)" by (rule "1.IH"[OF n "1.prems"(2,3)])
    show "returns (renderInline rb ctx y)" for y by (rule returns_inline(1)[OF "1.prems"(2)])
    show "keepsFlag (renderInline rb ctx y)" for y by (rule keepsFlag_inline(1)[OF "1.prems"(3)])
  qed
  then show ?case by (auto intro!: setsFlag_mbind1)
next
  case (12 rb ctx u)
  then show ?case by (auto intro!: setsFlag_mbind1 setsFlag_renderImage)
next
  case (14 rb ctx ident lbl cs)
  from "14.IH"[OF _ "14.prems"(2,3)] "14.prems"(1)
  have "setsFlag (renderInlines rb ctx cs)" by simp
  then show ?case
    by (auto intro!: setsFlag_mbind1 split: option.splits simp del: renderInlines.simps)
qed (auto intro!: setsFlag_mbind1 simp del: renderInlines.simps)

lemma setsFlag_renderParagraph:
  assumes "returnsNormally (onError ctx)" and "\<And>child. keepsFlag (rb child)"
    and "toLowerCase (trim (plainTextFromPhrasing cs (definitions ctx))) \<noteq> ''[toc]''"
    and "\<exists>c \<in> set cs. inlineHasRemote c"
  shows "setsFlag (renderParagraph rb ctx cs)"
  using setsFlag_inline(2)[OF assms(1,2) assms(4)] assms(3)
  by (simp add: renderParagraph_def Let_def del: renderInlines.simps)

lemma setsFlag_renderHeading:
  assumes "returnsNormally (onError ctx)" and "\<And>child. keepsFlag (rb child)"
    and "\<exists>c \<in> set cs. inlineHasRemote c"
  shows "setsFlag (renderHeading rb ctx depth cs lvl)"
  using setsFlag_inline(2)[OF assms(1,2) assms(3)]
  by (auto simp: renderHeading_def Let_def simp del: renderInlines.simps intro!: setsFlag_mbind1)

lemma setsFlag_renderTable:
  assumes cb: "returnsNormally (onError ctx)" and rbk: "\<And>child. keepsFlag (rb child)"
    and rows: "rows \<noteq> []" "hd rows \<noteq> []"
    and remote: "\<exists>row \<in> set rows. \<exists>cell \<in> set row. \<exists>c \<in> set cell. inlineHasRemote c"
  shows "setsFlag (renderTable rb ctx algn rows lvl)"
proof -
  obtain headerRow rest where r: "rows = headerRow # rest" using rows(1) by (cases rows) auto
  with rows(2) have hne: "length headerRow \<noteq> 0" by simp
  from remote r obtain cell where cell: "cell \<in> set headerRow \<or> cell \<in> set (concat rest)"
    and rem: "\<exists>c \<in> set cell. inlineHasRemote c" by auto
  have retI: "returns (renderInlines rb ctx y)" for y by (rule returns_inline(2)[OF cb])
  have keepI: "keepsFlag (renderInlines rb ctx y)" for y by (rule keepsFlag_inline(2)[OF rbk])
  have setI: "setsFlag (renderInlines rb ctx cell)" by (rule setsFlag_inline(2)[OF cb rbk rem])
  have body: "setsFlag (mbind (mapM H headerRow) (\<lambda>headerCells. mbind (mapM D (concat rest)) (k headerCells)))"
    if k: "\<And>hc dc. keepsFlag (k hc dc)"
      and setH: "setsFlag (H cell)" and setD: "setsFlag (D cell)"
      and retH: "\<And>y. returns (H y)" and keepH: "\<And>y. keepsFlag (H y)"
      and retD: "\<And>y. returns (D y)" and keepD: "\<And>y. keepsFlag (D y)"
    for k :: "string list \<Rightarrow> string list \<Rightarrow> string m" and H D :: "inline list \<Rightarrow> string m"
  proof (cases "cell \<in> set headerRow")
    case True
    have "setsFlag (mapM H headerRow)"
      by (rule setsFlag_mapM[where f = H, OF True setH retH keepH])
    then show ?thesis
      by (rule setsFlag_mbind1) (intro keepsFlag_mbind keepsFlag_mapM keepD k)
  next
    case False
    with cell have c: "cell \<in> set (concat rest)" by simp
    have "setsFlag (mapM D (concat rest))"
      by (rule setsFlag_mapM[where f = D, OF c setD retD keepD])
    then have inner: "setsFlag (mbind (mapM D (concat rest)) (k hc))" for hc
      by (rule setsFlag_mbind1) (rule k)
    show ?thesis
    proof (rule setsFlag_mbind2)
      show "returns (mapM H headerRow)" by (intro returns_mapM retH)
      show "setsFlag (mbind (mapM D (concat rest)) (k hc))" for hc by (rule inner)
    qed
  qed
  show ?thesis
    unfolding renderTable_def r
    using hne
    by (auto simp: Let_def simp del: renderInlines.simps
          intro!: setsFlag_tryCatch body setsFlag_mbind1[OF setI] retI keepI)
qed

lemma setsFlag_block:
  assumes "returnsNormally (onError ctx)" and "\<And>child. keepsFlag (rb child)"
  shows "blockShowsRemote (definitions ctx) node \<Longrightarrow> setsFlag (renderBlockWith rb ctx node lvl)"
    and "blockShowsRemote (definitions ctx) node \<Longrightarrow> setsFlag (renderSwitchWith rb ctx node lvl)"
    and "\<exists>item \<in> set items. \<exists>c \<in> set item. blockShowsRemote (definitions ctx) c
           \<Longrightarrow> setsFlag (renderListWith rb ctx ordered items lvl)"
    and "\<exists>c \<in> set children. blockShowsRemote (definitions ctx) c
           \<Longrightarrow> setsFlag (renderListItemWith rb ctx children marker lvl)"
    and "\<exists>c \<in> set children. blockShowsRemote (definitions ctx) c
           \<Longrightarrow> setsFlag (renderBlockquoteWith rb ctx children lvl)"
  using assms
proof (induction rb ctx node lvl and rb ctx node lvl and rb ctx ordered items lvl
         and rb ctx children marker lvl and rb ctx children lvl
         rule: renderBlockWith_renderSwitchWith_renderListWith_renderListItemWith_renderBlockquoteWith.induct)
  case (1 rb ctx node indentLevel)
  from "1.IH"[OF "1.prems"] show ?case
    by (auto simp: renderBlockWith.simps intro!: setsFlag_tryCatch)
next
  case (5 rb ctx depth children indentLevel)
  then show ?case by (auto intro!: setsFlag_mbind1 setsFlag_renderHeading)
next
  case (6 rb ctx children indentLevel)
  then show ?case by (auto intro!: setsFlag_mbind1 setsFlag_renderParagraph)
next
  case (7 rb ctx ordered items indentLevel)
  from "7.IH"[OF _ "7.prems"(2,3)] "7.prems"(1) show ?case
    by (auto intro!: setsFlag_mbind1)
next
  case (9 rb ctx children indentLevel)
  from "9.IH"[OF _ "9.prems"(2,3)] "9.prems"(1) show ?case
    by (auto intro!: setsFlag_mbind1)
next
  case (11 rb ctx algn rows indentLevel)
  then show ?case by (auto intro!: setsFlag_mbind1 setsFlag_renderTable)
next
  case (14 rb ctx ordered items indentLevel)
  note cb = "14.prems"(2) and rbk = "14.prems"(3)
  from "14.prems"(1) obtain item where item: "item \<in> set items"
    and c: "\<exists>c \<in> set item. blockShowsRemote (definitions ctx) c" by blast
  let ?f = "\<lambda>item. renderListItemWith rb ctx item (if ordered then ''+'' else ''-'') indentLevel"
  have "setsFlag (mapM ?f items)"
  proof (rule setsFlag_mapM[where f = ?f, OF item])
    show "setsFlag (?f item)" by (rule "14.IH"[OF refl item c cb rbk])
    show "returns (?f y)" for y by (rule returns_block(4)[OF cb])
    show "keepsFlag (?f y)" for y by (rule keepsFlag_block(4)[OF rbk])
  qed
  then show ?case by (auto simp: Let_def renderListWith.simps intro!: setsFlag_mbind1)
next
  case (15 rb ctx children marker indentLevel)
  note cb = "15.prems"(2) and rbk = "15.prems"(3)
  from "15.prems"(1) obtain c where c: "c \<in> set children"
    and sh: "blockShowsRemote (definitions ctx) c" by blast
  let ?g = "\<lambda>child. case asList child of
                None \<Rightarrow> mbind (renderBlockWith rb ctx child (Suc indentLevel))
                          (\<lambda>r. mreturn (pushIfTruthy r))
              | Some (ordered, items) \<Rightarrow>
                  mbind (renderListWith rb ctx ordered items (Suc indentLevel)) (\<lambda>r. mreturn [r])"
  have retg: "returns (?g y)" for y
    using returns_block(1,3)[OF cb] by (auto split: option.splits)
  have keepg: "keepsFlag (?g y)" for y
    using keepsFlag_block(1,3)[OF rbk] by (auto split: option.splits)
  show ?case
  proof (cases "leadingParagraph children")
    case None
    have setg: "setsFlag (?g c)"
    proof (cases "asList c")
      case asNone: None
      from "15.IH"(1)[OF refl refl None c asNone sh cb rbk] asNone show ?thesis
        by (auto intro!: setsFlag_mbind1)
    next
      case (Some oi)
      obtain ordered items where oi: "oi = (ordered, items)" by (cases oi)
      from Some oi have "c = List ordered items" by (simp add: asList_Some)
      with sh have "\<exists>item \<in> set items. \<exists>x \<in> set item. blockShowsRemote (definitions ctx) x"
        by simp
      from "15.IH"(2)[OF refl refl None c Some oi[symmetric] this cb rbk] Some oi
      show ?thesis by (auto intro!: setsFlag_mbind1)
    qed
    have "setsFlag (mapM ?g children)" by (rule setsFlag_mapM[where f = ?g, OF c setg retg keepg])
    then show ?thesis
      using None by (auto simp: Let_def renderListItemWith.simps intro!: setsFlag_mbind1)
  next
    case (Some pr)
    obtain p rest where pr: "pr = (p, rest)" by (cases pr)
    from Some pr have ch: "children = Paragraph p # rest" by (simp add: leadingParagraph_Some)
    have "setsFlag (mbind (renderParagraph rb ctx p) (\<lambda>first. mbind (mapM ?g rest) (k first)))"
      if k: "\<And>a b. keepsFlag (k a b)" for k :: "string \<Rightarrow> string list list \<Rightarrow> string m"
    proof (cases "c = Paragraph p")
      case True
      with sh have "setsFlag (renderParagraph rb ctx p)"
        by (auto intro!: setsFlag_renderParagraph[OF cb rbk])
      then show ?thesis
        by (rule setsFlag_mbind1) (intro keepsFlag_mbind keepsFlag_mapM keepg k)
    next
      case False
      with c ch have cr: "c \<in> set rest" by simp
      have setg: "setsFlag (?g c)"
      proof (cases "asList c")
        case asNone: None
        from "15.IH"(3)[OF refl refl Some pr[symmetric] cr asNone sh cb rbk] asNone show ?thesis
          by (auto intro!: setsFlag_mbind1)
      next
        case asSome: (Some oi)
        obtain ordered items where oi: "oi = (ordered, items)" by (cases oi)
        from asSome oi have "c = List ordered items" by (simp add: asList_Some)
        with sh have "\<exists>item \<in> set items. \<exists>x \<in> set item. blockShowsRemote (definitions ctx) x"
          by simp
        from "15.IH"(4)[OF refl refl Some pr[symmetric] cr asSome oi[symmetric] this cb rbk]
          asSome oi
        show ?thesis by (auto intro!: setsFlag_mbind1)
      qed
      have "setsFlag (mapM ?g rest)" by (rule setsFlag_mapM[where f = ?g, OF cr setg retg keepg])
      then have inner: "setsFlag (mbind (mapM ?g rest) (k first))" for first
        by (rule setsFlag_mbind1) (rule k)
      show ?thesis
      proof (rule setsFlag_mbind2)
        show "returns (renderParagraph rb ctx p)" by (rule returns_renderParagraph[OF cb])
        show "setsFlag (mbind (mapM ?g rest) (k first))" for first by (rule inner)
      qed
    qed
    then show ?thesis
      using Some pr by (auto simp: Let_def renderListItemWith.simps)
  qed
next
  case (16 rb ctx children indentLevel)
  note cb = "16.prems"(2) and rbk = "16.prems"(3)
  from "16.prems"(1) obtain c where c: "c \<in> set children"
    and sh: "blockShowsRemote (definitions ctx) c" by blast
  have "setsFlag (mapM (\<lambda>child. renderBlockWith rb ctx child 0) children)"
  proof (rule setsFlag_mapM[where f = "\<lambda>child. renderBlockWith rb ctx child 0", OF c])
    show "setsFlag (renderBlockWith rb ctx c 0)" by (rule "16.IH"[OF c sh cb rbk])
    show "returns (renderBlockWith rb ctx y 0)" for y by (rule returns_block(1)[OF cb])
    show "keepsFlag (renderBlockWith rb ctx y 0)" for y by (rule keepsFlag_block(1)[OF rbk])
  qed
  then show ?case
    by (auto simp: Let_def renderBlockquoteWith.simps intro!: setsFlag_mbind1)
qed auto


lemma setsFlag_renderBlock:
  assumes "returnsNormally (onError ctx)" and "blockShowsRemote (definitions ctx) node"
  shows "setsFlag (renderBlock k ctx node lvl)"
  unfolding renderBlock_def
  by (rule setsFlag_block(1)[OF assms(1) keepsFlag_renderFootnoteBlock assms(2)])

lemma returns_renderBlock:
  "returnsNormally (onError ctx) \<Longrightarrow> returns (renderBlock k ctx node lvl)"
  unfolding renderBlock_def by (rule returns_block(1))

lemma setsFlag_renderBody:
  assumes cb: "returnsNormally (onError ctx)"
    and shown: "\<exists>n \<in> set nodes. blockShowsRemote (definitions ctx) n"
  shows "setsFlag (renderBody k ctx nodes)"
proof -
  from shown obtain n where n: "n \<in> set nodes" and r: "blockShowsRemote (definitions ctx) n"
    by blast
  have "setsFlag (mapM (\<lambda>node. renderBlock k ctx node 0) nodes)"
  proof (rule setsFlag_mapM[where x = n])
    show "n \<in> set nodes" by (rule n)
    show "setsFlag (renderBlock k ctx n 0)" by (rule setsFlag_renderBlock[OF cb r])
    show "returns (renderBlock k ctx y 0)" for y by (rule returns_renderBlock[OF cb])
    show "keepsFlag (renderBlock k ctx y 0)" for y by (rule keepsFlag_renderBlock)
  qed
  then show ?thesis
    unfolding renderBody_def by (rule setsFlag_mbind1) simp
qed

subsection \<open>The preamble in the output\<close>

lemma buildOutput_run:
  assumes body: "renderBody k ctx (nodesForBody tree md idx) s = (Inr body, s1)"
    and meta: "(if hasMetadata md then metadataSection ctx md else mreturn []) s1 = (Inr parts0, s2)"
  shows "buildOutput k tree md idx ctx s
           = (Inr (assembleOutput md parts0 (buildWarningsSection s1) body), s1)"
proof -
  have "s2 = s1"
    using meta metadataSection_returns[of ctx md s1]
    by (auto simp: mreturn_def split: if_splits)
  with body meta show ?thesis
    by (simp add: buildOutput_def tryCatch_def mbind_def)
qed

text \<open>
  C5 (amended). \<open>markdown2typst\<close> clears the image flag and calls \<open>buildOutput\<close>. When the body
  is rendered to \<open>body\<close> and the metadata lines to \<open>parts0\<close>:
  if the callback, when there is one, returns from every call and a remote image stands where
  the renderer reaches it (in a heading, a paragraph, a list item, a quote or a table cell of
  the nodes of the body), the output is the header, an empty line, the helper preamble once,
  and the body, however many remote images there are;
  if the flag is clear at the start and neither the nodes of the root nor the footnote
  definitions hold a remote image, the output is the header and the body with no preamble.
  \<open>renderImage\<close> writes \<open>#external-image\<close> with the escaped URL and sets the flag for an URL that
  starts with \<open>http://\<close> or \<open>https://\<close> in any letter case, and \<open>#image\<close> with the escaped path,
  leaving the state as it is, for every other URL.
\<close>

theorem remote_image_preamble:
  assumes body: "renderBody k ctx (nodesForBody tree md idx) s = (Inr body, s1)"
    and meta: "(if hasMetadata md then metadataSection ctx md else mreturn []) s1 = (Inr parts0, s2)"
  shows "(returnsNormally (onError ctx)
            \<and> (\<exists>n \<in> set (nodesForBody tree md idx). blockShowsRemote (definitions ctx) n)
          \<longrightarrow> buildOutput k tree md idx ctx s
                = (Inr (join [NEWLINE]
                          (headerParts md parts0 @ ['''', externalImagePreamble]
                           @ (if body \<noteq> [] then ['''', body] else []))), s1))
       \<and> (\<not> externalImages s \<and> footnotesClean (footnoteDefinitions ctx)
            \<and> (\<forall>n \<in> set tree. \<not> blockHasRemote n)
          \<longrightarrow> buildOutput k tree md idx ctx s
                = (Inr (if headerParts md parts0 = [] then body
                        else join [NEWLINE]
                               (headerParts md parts0 @ (if body \<noteq> [] then ['''', body] else []))),
                   s1))
       \<and> (isExternal u
          \<longrightarrow> renderImage u s
                = (Inr (''#external-image('' @ [NEWLINE] @ ''  '' @ [DQUOTE] @ escapeTypstString u
                        @ [DQUOTE] @ [NEWLINE] @ '')''), s\<lparr>externalImages := True\<rparr>))
       \<and> (\<not> isExternal u
          \<longrightarrow> renderImage u s
                = (Inr (''#image('' @ [DQUOTE] @ escapeTypstString u @ [DQUOTE] @ '')''), s))"
proof -
  note run = buildOutput_run[OF body meta]
  have shown: "buildWarningsSection s1 = Some externalImagePreamble"
    if cb: "returnsNormally (onError ctx)"
      and n: "\<exists>n \<in> set (nodesForBody tree md idx). blockShowsRemote (definitions ctx) n"
  proof -
    have "setsFlag (renderBody k ctx (nodesForBody tree md idx))"
      by (rule setsFlag_renderBody[OF cb n])
    then have "externalImages (snd (renderBody k ctx (nodesForBody tree md idx) s))"
      unfolding setsFlag_def by blast
    with body show ?thesis by (simp add: buildWarningsSection_cases)
  qed
  have clear: "buildWarningsSection s1 = None"
    if s: "\<not> externalImages s" and fns: "footnotesClean (footnoteDefinitions ctx)"
      and t: "\<forall>n \<in> set tree. \<not> blockHasRemote n"
  proof -
    from t set_nodesForBody[of tree md idx]
    have "\<forall>n \<in> set (nodesForBody tree md idx). \<not> blockHasRemote n" by blast
    then have "staysClear (renderBody k ctx (nodesForBody tree md idx))"
      by (rule staysClear_renderBody[OF fns])
    with s have "\<not> externalImages (snd (renderBody k ctx (nodesForBody tree md idx) s))"
      unfolding staysClear_def by blast
    with body show ?thesis by (simp add: buildWarningsSection_cases)
  qed
  show ?thesis
    using run shown clear
    by (auto simp: assembleOutput_Some[OF externalImagePreamble_nonempty] assembleOutput_None
                   renderImage_def mreturn_def)
qed

theorem remote_image_preamble_witness:
  "fst (buildOutput 1 [Paragraph [Image ''https://e.com/a.png'', Image ''HTTP://e.com/b.png'']]
          noMetadata None emptyContext initialState)
     = Inr (join [NEWLINE]
              ['''', externalImagePreamble, '''',
               ''#external-image('' @ [NEWLINE] @ ''  '' @ [DQUOTE] @ ''https://e.com/a.png''
               @ [DQUOTE] @ [NEWLINE] @ '')''
               @ ''#external-image('' @ [NEWLINE] @ ''  '' @ [DQUOTE] @ ''HTTP://e.com/b.png''
               @ [DQUOTE] @ [NEWLINE] @ '')''])
   \<and> fst (buildOutput 1 [Paragraph [Image ''a b.png'']] noMetadata None emptyContext initialState)
     = Inr (''#image('' @ [DQUOTE] @ ''a b.png'' @ [DQUOTE] @ '')'')"
proof -
  let ?two = "[Paragraph [Image ''https://e.com/a.png'', Image ''HTTP://e.com/b.png'']]"
  let ?b2 = "''#external-image('' @ [NEWLINE] @ ''  '' @ [DQUOTE] @ ''https://e.com/a.png''
               @ [DQUOTE] @ [NEWLINE] @ '')''
               @ ''#external-image('' @ [NEWLINE] @ ''  '' @ [DQUOTE] @ ''HTTP://e.com/b.png''
               @ [DQUOTE] @ [NEWLINE] @ '')''"
  let ?one = "[Paragraph [Image ''a b.png'']]"
  let ?b1 = "''#image('' @ [DQUOTE] @ ''a b.png'' @ [DQUOTE] @ '')''"
  let ?set = "initialState\<lparr>externalImages := True\<rparr>"
  have body2: "renderBody 1 emptyContext (nodesForBody ?two noMetadata None) initialState
                 = (Inr ?b2, ?set)"
    by code_simp
  have meta2: "(if hasMetadata noMetadata then metadataSection emptyContext noMetadata
                else mreturn []) ?set = (Inr [], ?set)"
    by code_simp
  have body1: "renderBody 1 emptyContext (nodesForBody ?one noMetadata None) initialState
                 = (Inr ?b1, initialState)"
    by code_simp
  have meta1: "(if hasMetadata noMetadata then metadataSection emptyContext noMetadata
                else mreturn []) initialState = (Inr [], initialState)"
    by code_simp
  have cb: "returnsNormally (onError emptyContext)"
    by (simp add: returnsNormally_def emptyContext_def)
  have shown: "\<exists>n \<in> set (nodesForBody ?two noMetadata None).
                 blockShowsRemote (definitions emptyContext) n"
    by code_simp
  have clean: "footnotesClean (footnoteDefinitions emptyContext)"
    by (simp add: footnotesClean_def emptyContext_def)
  have none: "\<forall>n \<in> set ?one. \<not> blockHasRemote n"
    by code_simp
  have start: "\<not> externalImages initialState"
    by (simp add: initialState_def)
  have header: "headerParts noMetadata [] = []"
    by code_simp
  from remote_image_preamble[OF body2 meta2] cb shown
  have "buildOutput 1 ?two noMetadata None emptyContext initialState
          = (Inr (join [NEWLINE]
                    (headerParts noMetadata [] @ ['''', externalImagePreamble]
                     @ (if ?b2 \<noteq> [] then ['''', ?b2] else []))), ?set)"
    by blast
  then have two: "fst (buildOutput 1 ?two noMetadata None emptyContext initialState)
          = Inr (join [NEWLINE] ['''', externalImagePreamble, '''', ?b2])"
    by (simp add: header)
  from remote_image_preamble[OF body1 meta1] start clean none
  have "buildOutput 1 ?one noMetadata None emptyContext initialState
          = (Inr (if headerParts noMetadata [] = [] then ?b1
                  else join [NEWLINE]
                         (headerParts noMetadata [] @ (if ?b1 \<noteq> [] then ['''', ?b1] else []))),
             initialState)"
    by blast
  then have one: "fst (buildOutput 1 ?one noMetadata None emptyContext initialState) = Inr ?b1"
    by (simp add: header)
  from two one show ?thesis by (rule conjI)
qed

text \<open>
  A remote image in a footnote definition that no reference names is not rendered: the output
  has no preamble although the document holds a remote image.
\<close>

theorem remote_image_in_unused_footnote:
  "isExternal ''https://e.com/i.png''
   \<and> markdown2typst
        (treeOnly [Paragraph [Text ''hello''],
                   FootnoteDefinition ''1'' [Paragraph [Image ''https://e.com/i.png'']]])
        1 [] noOptions initialState
     = (Inr ''hello'', initialState)"
  by code_simp

end
